theory Spec2Isabelle
  imports Main "HOL-Library.Word"
begin

section \<open>fswatch: the watch-and-react engine of fswatch.go\<close>

text \<open>
  The development embeds the functions of \<^verbatim>\<open>fswatch.go\<close> that carry the engine:
  \<^verbatim>\<open>IsChanged\<close>, \<^verbatim>\<open>IsDirectory\<close>, \<^verbatim>\<open>transformEvent\<close>, \<^verbatim>\<open>fixFWConfig\<close>,
  \<^verbatim>\<open>TriggerEvent.Start\<close>, \<^verbatim>\<open>Stop\<close>, \<^verbatim>\<open>WatchEvent\<close>, \<^verbatim>\<open>ListAllDir\<close> and
  \<^verbatim>\<open>WatchPathAndChildren\<close>. What the Go code reads from the operating system (file
  metadata, the inherited environment, whether a child has exited) is an argument of the
  embedded function; what it calls in packages outside the repository
  (\<^verbatim>\<open>time.ParseDuration\<close>, the \<^verbatim>\<open>dockerignore\<close> package) is a field of the record
  \<open>lib\<close>. Mutated globals and receivers are passed in and returned.
\<close>

subsection \<open>Time values and file metadata\<close>

text \<open>
  A \<^verbatim>\<open>time.Time\<close> is the number of nanoseconds since the zero \<^verbatim>\<open>Time\<close>, so the zero
  value that a Go map yields for an absent key is \<open>0\<close>. A \<^verbatim>\<open>time.Duration\<close> is a signed
  64-bit count of nanoseconds; \<^verbatim>\<open>Time.Sub\<close> saturates at the ends of that range.
\<close>

type_synonym Time = int
type_synonym Duration = int

definition maxDuration :: Duration where
  "maxDuration = 2 ^ 63 - 1"

definition minDuration :: Duration where
  "minDuration = - (2 ^ 63)"

definition Millisecond :: Duration where
  "Millisecond = 1000000"

definition Sub :: "Time \<Rightarrow> Time \<Rightarrow> Duration" where
  "Sub t u = (if t - u > maxDuration then maxDuration
              else if t - u < minDuration then minDuration
              else t - u)"

text \<open>The part of \<^verbatim>\<open>os.FileInfo\<close> the program reads.\<close>

record FileInfo =
  fi_Name :: string
  IsDir :: bool
  ModTime :: Time

text \<open>\<^verbatim>\<open>os.Stat\<close> at one moment: \<open>None\<close> is a non-nil error.\<close>

type_synonym stat_fn = "string \<Rightarrow> FileInfo option"

definition IsDirectory :: "stat_fn \<Rightarrow> string \<Rightarrow> bool" where
  "IsDirectory stat path = (case stat path of None \<Rightarrow> False | Some pinfo \<Rightarrow> IsDir pinfo)"

subsection \<open>The change filter's debounce state\<close>

text \<open>The global \<^verbatim>\<open>fileModifyTimeMap\<close>; reading an absent key gives the zero time.\<close>

type_synonym mtime_map = "string \<rightharpoonup> Time"

definition stored :: "mtime_map \<Rightarrow> string \<Rightarrow> Time" where
  "stored m path = (case m path of None \<Rightarrow> 0 | Some t \<Rightarrow> t)"

text \<open>\<^verbatim>\<open>IsChanged\<close> returns its verdict and the map as it leaves it.\<close>

definition IsChanged :: "stat_fn \<Rightarrow> mtime_map \<Rightarrow> string \<Rightarrow> bool \<times> mtime_map" where
  "IsChanged stat m path =
     (case stat path of
        None \<Rightarrow> (True, m)
      | Some pinfo \<Rightarrow>
          (let mtime = ModTime pinfo in
           if Sub mtime (stored m path) > Millisecond * 100
           then (True, m(path \<mapsto> mtime))
           else (False, m)))"

text \<open>
  A sequence of calls of \<^verbatim>\<open>IsChanged\<close> for one path, each under the file system as it
  is at that call: the verdicts in order, and the final map.
\<close>

fun IsChanged_calls :: "stat_fn list \<Rightarrow> mtime_map \<Rightarrow> string \<Rightarrow> bool list \<times> mtime_map" where
  "IsChanged_calls [] m path = ([], m)"
| "IsChanged_calls (stat # rest) m path =
     (case IsChanged stat m path of
        (b, m') \<Rightarrow> (case IsChanged_calls rest m' path of (bs, m'') \<Rightarrow> (b # bs, m'')))"

subsection \<open>Errors\<close>

text \<open>
  Error values and panics of the program. The errors of the packages outside the
  repository carry their message; \<open>PanicNilFileInfo\<close> is the nil dereference of
  \<^verbatim>\<open>info.IsDir()\<close> in the walk callback of \<^verbatim>\<open>ListAllDir\<close> when \<^verbatim>\<open>filepath.Walk\<close>
  hands it a nil \<^verbatim>\<open>FileInfo\<close>.
\<close>

datatype error =
    ErrDuration string
  | ErrReadIgnore string
  | ErrMatch string
  | ErrExec string
  | PanicNilFileInfo

subsection \<open>The fsnotify watcher and its events\<close>

text \<open>
  \<^verbatim>\<open>fsnotify.Op\<close> is a \<^verbatim>\<open>uint32\<close> bit mask; the program compares whole values with
  \<^verbatim>\<open>==\<close>.
\<close>

type_synonym Op = "32 word"

definition Create :: Op where "Create = 1"
definition Write :: Op where "Write = 2"
definition Remove :: Op where "Remove = 4"
definition Rename :: Op where "Rename = 8"
definition Chmod :: Op where "Chmod = 16"

record Event =
  ev_Name :: string
  ev_Op :: Op

record FSEvent =
  fse_Name :: string

text \<open>
  The watcher is the log of the calls the program makes on it, oldest first. What the
  watcher does with a call is its own business and no part of this development: the
  program drops the error of every \<^verbatim>\<open>Add\<close>, and the error of \<^verbatim>\<open>Remove\<close> decides only
  whether a line is logged.
\<close>

datatype watcher_call = WAdd string | WRemove string

record Watcher =
  calls :: "watcher_call list"

definition NewWatcher :: Watcher where
  "NewWatcher = \<lparr>calls = []\<rparr>"

definition Watcher_Add :: "string \<Rightarrow> Watcher \<Rightarrow> Watcher" where
  "Watcher_Add name w = w\<lparr>calls := calls w @ [WAdd name]\<rparr>"

definition Watcher_Remove :: "string \<Rightarrow> Watcher \<Rightarrow> Watcher" where
  "Watcher_Remove name w = w\<lparr>calls := calls w @ [WRemove name]\<rparr>"

subsection \<open>The change filter: transformEvent\<close>

text \<open>
  The state the loop of \<^verbatim>\<open>transformEvent\<close> works on: the watcher, the global
  \<^verbatim>\<open>fileModifyTimeMap\<close>, and everything sent on \<^verbatim>\<open>evtC\<close> so far, oldest first. The
  channel is taken to be open; its closing by the shutdown goroutine is outside this
  sequential model. Each notification comes with the file system as \<^verbatim>\<open>os.Stat\<close> sees it
  while that notification is processed.
\<close>

record pipeline =
  fsw :: Watcher
  fileModifyTimeMap :: mtime_map
  evtC :: "FSEvent list"

record notification =
  n_evt :: Event
  n_stat :: stat_fn

definition transformEvent_step :: "notification \<Rightarrow> pipeline \<Rightarrow> pipeline" where
  "transformEvent_step n s =
     (let evt = n_evt n in
      if ev_Op evt = Create \<and> IsDirectory (n_stat n) (ev_Name evt)
      then s\<lparr>fsw := Watcher_Add (ev_Name evt) (fsw s)\<rparr>
      else if ev_Op evt = Remove
      then s\<lparr>fsw := Watcher_Remove (ev_Name evt) (fsw s)\<rparr>
      else (case IsChanged (n_stat n) (fileModifyTimeMap s) (ev_Name evt) of
              (changed, m') \<Rightarrow>
                if \<not> changed then s\<lparr>fileModifyTimeMap := m'\<rparr>
                else s\<lparr>fileModifyTimeMap := m',
                       evtC := evtC s @ [\<lparr>fse_Name = ev_Name evt\<rparr>]\<rparr>))"

fun transformEvent :: "notification list \<Rightarrow> pipeline \<Rightarrow> pipeline" where
  "transformEvent [] s = s"
| "transformEvent (n # ns) s = transformEvent ns (transformEvent_step n s)"

subsection \<open>Paths\<close>

text \<open>
  The functions of \<^verbatim>\<open>strings\<close>, \<^verbatim>\<open>os\<close> and \<^verbatim>\<open>path/filepath\<close> that \<^verbatim>\<open>ListAllDir\<close> and
  \<^verbatim>\<open>filepath.Walk\<close> use, on a system whose \<^verbatim>\<open>os.PathSeparator\<close> is \<open>/\<close>:
  \<^verbatim>\<open>strings.Count(path, "/")\<close>, \<^verbatim>\<open>strings.HasPrefix\<close>, \<^verbatim>\<open>strings.Split\<close> at a one-byte separator,
  \<^verbatim>\<open>strings.Join\<close>, the base name \<^verbatim>\<open>os.Lstat\<close> reports, \<^verbatim>\<open>filepath.Clean\<close> (no empty
  and no \<open>.\<close> element, \<open>..\<close> cancels the element before it, \<open>/..\<close> is \<open>/\<close>, the empty
  result is \<open>.\<close>) and \<^verbatim>\<open>filepath.Join\<close> of a directory and an entry name.
\<close>

definition PathSeparator :: char where
  "PathSeparator = CHR ''/''"

definition Count :: "string \<Rightarrow> char \<Rightarrow> nat" where
  "Count s c = length (filter (\<lambda>x. x = c) s)"

definition HasPrefix :: "string \<Rightarrow> string \<Rightarrow> bool" where
  "HasPrefix s p = (take (length p) s = p)"

fun Split :: "string \<Rightarrow> char \<Rightarrow> string list" where
  "Split [] sep = [[]]"
| "Split (c # cs) sep =
     (if c = sep then [] # Split cs sep
      else (case Split cs sep of [] \<Rightarrow> [[c]] | x # xs \<Rightarrow> (c # x) # xs))"

fun strings_Join :: "string list \<Rightarrow> string \<Rightarrow> string" where
  "strings_Join [] sep = []"
| "strings_Join [x] sep = x"
| "strings_Join (x # y # ys) sep = x @ sep @ strings_Join (y # ys) sep"

definition basename :: "string \<Rightarrow> string" where
  "basename name =
     (if name = [] then []
      else (let r = dropWhile (\<lambda>c. c = PathSeparator) (rev name) in
            if r = [] then [PathSeparator]
            else rev (takeWhile (\<lambda>c. c \<noteq> PathSeparator) r)))"

text \<open>
  The elements of a cleaned path: \<open>st\<close> holds the elements kept so far, last one first.
\<close>

fun clean_elems :: "bool \<Rightarrow> string list \<Rightarrow> string list \<Rightarrow> string list" where
  "clean_elems rooted st [] = rev st"
| "clean_elems rooted st (c # cs) =
     (if c = [] \<or> c = ''.'' then clean_elems rooted st cs
      else if c = ''..'' then
        (case st of
           [] \<Rightarrow> if rooted then clean_elems rooted [] cs else clean_elems rooted [''..''] cs
         | t # st' \<Rightarrow>
             if t = ''..'' then clean_elems rooted (''..'' # t # st') cs
             else clean_elems rooted st' cs)
      else clean_elems rooted (c # st) cs)"

definition Clean :: "string \<Rightarrow> string" where
  "Clean path =
     (if path = [] then ''.''
      else (let rooted = (hd path = PathSeparator);
                body = strings_Join (clean_elems rooted [] (Split path PathSeparator)) [PathSeparator]
            in if rooted then PathSeparator # body
               else if body = [] then ''.'' else body))"

definition Join :: "string \<Rightarrow> string \<Rightarrow> string" where
  "Join dir name =
     (if dir \<noteq> [] then Clean (dir @ [PathSeparator] @ name)
      else if name \<noteq> [] then Clean name
      else [])"

subsection \<open>The directory tree and filepath.Walk\<close>

text \<open>
  What \<^verbatim>\<open>os.Lstat\<close> and the directory listings show below a path: a file (anything that
  is not a directory, a symbolic link included) or a directory with its entries in the
  order \<^verbatim>\<open>filepath.Walk\<close> visits them, each with its modification time. Every entry of
  a listed directory can be read; a root that cannot be read is no tree at all.
\<close>

datatype fsnode =
    File Time
  | Dir Time "(string \<times> fsnode) list"

fun node_info :: "string \<Rightarrow> fsnode \<Rightarrow> FileInfo" where
  "node_info name (File t) = \<lparr>fi_Name = name, IsDir = False, ModTime = t\<rparr>"
| "node_info name (Dir t es) = \<lparr>fi_Name = name, IsDir = True, ModTime = t\<rparr>"

text \<open>What a \<^verbatim>\<open>WalkFunc\<close> returns: \<^verbatim>\<open>nil\<close> or \<^verbatim>\<open>filepath.SkipDir\<close>.\<close>

datatype walk_result = WalkNil | SkipDir

fun is_dir :: "fsnode \<Rightarrow> bool" where
  "is_dir (File t) = False"
| "is_dir (Dir t es) = True"

text \<open>
  \<^verbatim>\<open>walk\<close> of \<^verbatim>\<open>path/filepath\<close>, with the state the callback mutates passed through.
  The callback sees the path and the info. For a directory the callback's \<^verbatim>\<open>SkipDir\<close>
  is returned without a look at the entries. In the loop over the entries, \<^verbatim>\<open>SkipDir\<close>
  from a directory entry is dropped and the loop goes on; \<^verbatim>\<open>SkipDir\<close> from a file entry
  ends the loop, so the rest of the directory that holds the file is skipped, and the
  directory returns it to the loop above, which drops it.
\<close>

fun walk :: "(string \<Rightarrow> FileInfo \<Rightarrow> 'a \<Rightarrow> walk_result \<times> 'a) \<Rightarrow> string \<Rightarrow> string \<Rightarrow> fsnode \<Rightarrow> 'a
               \<Rightarrow> walk_result \<times> 'a"
  and walk_entries :: "(string \<Rightarrow> FileInfo \<Rightarrow> 'a \<Rightarrow> walk_result \<times> 'a) \<Rightarrow> string
               \<Rightarrow> (string \<times> fsnode) list \<Rightarrow> 'a \<Rightarrow> walk_result \<times> 'a" where
  "walk walkFn path name (File t) acc = walkFn path (node_info name (File t)) acc"
| "walk walkFn path name (Dir t es) acc =
     (case walkFn path (node_info name (Dir t es)) acc of
        (SkipDir, acc') \<Rightarrow> (SkipDir, acc')
      | (WalkNil, acc') \<Rightarrow> walk_entries walkFn path es acc')"
| "walk_entries walkFn path [] acc = (WalkNil, acc)"
| "walk_entries walkFn path ((name, child) # es) acc =
     (case walk walkFn (Join path name) name child acc of
        (SkipDir, acc') \<Rightarrow>
          if is_dir child then walk_entries walkFn path es acc' else (SkipDir, acc')
      | (WalkNil, acc') \<Rightarrow> walk_entries walkFn path es acc')"

subsection \<open>ListAllDir and WatchPathAndChildren\<close>

text \<open>The callback \<^verbatim>\<open>ListAllDir\<close> hands to \<^verbatim>\<open>filepath.Walk\<close>, for a non-nil info.\<close>

definition listDir :: "int \<Rightarrow> int \<Rightarrow> string \<Rightarrow> FileInfo \<Rightarrow> string list \<Rightarrow> walk_result \<times> string list" where
  "listDir baseNumSeps depth path info dirs =
     (if IsDir info then
        (let base = fi_Name info in
         if base \<noteq> ''.'' \<and> HasPrefix base ''.'' then (SkipDir, dirs)
         else (let pathDepth = int (Count path PathSeparator) - baseNumSeps in
               if pathDepth > depth then (SkipDir, dirs)
               else (WalkNil, dirs @ [path])))
      else (WalkNil, dirs))"

text \<open>
  \<^verbatim>\<open>ListAllDir\<close>. The first argument is what \<^verbatim>\<open>os.Lstat\<close> finds at the root: for a root
  it cannot read, \<^verbatim>\<open>filepath.Walk\<close> calls the callback with a nil info, and the callback's
  \<^verbatim>\<open>info.IsDir()\<close> panics. Otherwise the walk starts at the root with the root's path as
  given and the base name of that path. \<^verbatim>\<open>filepath.Walk\<close> turns a \<^verbatim>\<open>SkipDir\<close> that the
  walk of the root returns into nil, and the callback returns no other error, so the
  \<^verbatim>\<open>err\<close> that \<^verbatim>\<open>ListAllDir\<close> returns with the list is nil.
\<close>

definition ListAllDir :: "fsnode option \<Rightarrow> string \<Rightarrow> int \<Rightarrow> error + string list" where
  "ListAllDir root_node path depth =
     (let baseNumSeps = int (Count path PathSeparator) in
      case root_node of
        None \<Rightarrow> Inl PanicNilFileInfo
      | Some node \<Rightarrow> Inr (snd (walk (listDir baseNumSeps depth) path (basename path) node [])))"







text \<open>
  \<^verbatim>\<open>WatchPathAndChildren\<close>: the watcher and the \<^verbatim>\<open>visits\<close> map are passed through. The
  closure \<^verbatim>\<open>watchDir\<close> comes first, then the loop over the root paths; \<open>lstat\<close> gives the
  tree below each root.
\<close>

type_synonym visits = "string \<Rightarrow> bool"

fun watchDir :: "string \<Rightarrow> Watcher \<times> visits \<Rightarrow> Watcher \<times> visits" where
  "watchDir dir (w, vs) =
     (if vs dir then (w, vs) else (Watcher_Add dir w, vs(dir := True)))"

fun watchPaths :: "(string \<Rightarrow> fsnode option) \<Rightarrow> string list \<Rightarrow> int \<Rightarrow> Watcher \<times> visits
                     \<Rightarrow> error + Watcher \<times> visits" where
  "watchPaths lstat [] depth st = Inr st"
| "watchPaths lstat (path # paths) depth st =
     (if snd st path then watchPaths lstat paths depth st
      else (case ListAllDir (lstat path) path depth of
              Inl e \<Rightarrow> Inl e
            | Inr dirs \<Rightarrow> watchPaths lstat paths depth (fold watchDir dirs (watchDir path st))))"

definition WatchPathAndChildren :: "(string \<Rightarrow> fsnode option) \<Rightarrow> Watcher \<Rightarrow> string list \<Rightarrow> int
                     \<Rightarrow> visits option \<Rightarrow> error + Watcher \<times> visits" where
  "WatchPathAndChildren lstat w paths depth vs0 =
     watchPaths lstat paths depth (w, case vs0 of None \<Rightarrow> (\<lambda>_. False) | Some vs \<Rightarrow> vs)"

subsection \<open>Signals and the table signalMaps\<close>

text \<open>
  The \<^verbatim>\<open>syscall.Signal\<close> values the table holds, with their numbers. An \<^verbatim>\<open>os.Signal\<close>
  interface value is an option: \<open>None\<close> is the nil interface.
\<close>

datatype os_Signal = SIGHUP | SIGINT | SIGQUIT | SIGTRAP | SIGKILL | SIGTERM

fun signum :: "os_Signal \<Rightarrow> nat" where
  "signum SIGHUP = 1"
| "signum SIGINT = 2"
| "signum SIGQUIT = 3"
| "signum SIGTRAP = 5"
| "signum SIGKILL = 9"
| "signum SIGTERM = 15"

text \<open>\<^verbatim>\<open>fmt.Sprintf("%d", n)\<close> for a number that is not negative.\<close>

fun decimal :: "nat \<Rightarrow> string" where
  "decimal n =
     (if n < 10 then [''0123456789'' ! n]
      else decimal (n div 10) @ [''0123456789'' ! (n mod 10)])"

type_synonym signal_table = "string \<rightharpoonup> os_Signal"

definition signalMaps_literal :: "(string \<times> os_Signal) list" where
  "signalMaps_literal =
     [(''INT'', SIGINT), (''HUP'', SIGHUP), (''QUIT'', SIGQUIT),
      (''TRAP'', SIGTRAP), (''TERM'', SIGTERM), (''KILL'', SIGKILL)]"

text \<open>
  The loop of \<^verbatim>\<open>init\<close> ranges over \<^verbatim>\<open>signalMaps\<close> while it inserts into it. Go visits
  every entry that was there at the start once and leaves open whether an entry
  inserted during the loop is visited. \<open>init_table visited\<close> is the table after the loop
  when \<open>visited\<close> is the sequence of keys the loop meets; \<open>init_entry\<close> is the loop body
  for one key. \<open>signalMaps\<close> is the table when the loop meets the six keys of the
  literal and none of the inserted ones; however the loop goes, the table has these
  eighteen keys. \<^verbatim>\<open>fixFWConfig\<close> takes the table it reads as an argument.
\<close>

definition init_entry :: "string \<Rightarrow> signal_table \<Rightarrow> signal_table" where
  "init_entry key m =
     (case m key of
        None \<Rightarrow> m
      | Some val \<Rightarrow> (m(''SIG'' @ key \<mapsto> val))(decimal (signum val) \<mapsto> val))"

definition init_table :: "string list \<Rightarrow> signal_table" where
  "init_table visited = fold init_entry visited (map_of signalMaps_literal)"

definition signalMaps :: signal_table where
  "signalMaps = init_table (map fst signalMaps_literal)"

subsection \<open>Configuration\<close>

text \<open>
  \<^verbatim>\<open>Environ\<close> is a Go map; it is held as the list of its entries in the order the
  \<^verbatim>\<open>range\<close> of \<^verbatim>\<open>Start\<close> meets them (Go fixes no order), with no key twice. \<open>kcmd\<close> is
  the command handle, \<open>None\<close> for nil; the \<open>n\<close>-th command the trigger creates is \<open>n\<close>.
\<close>

record TriggerEvent =
  Name :: string
  Pattens :: "string list"
  matchPattens :: "string list"
  Environ :: "(string \<times> string) list"
  Command :: string
  Delay :: string
  delayDuration :: Duration
  Signal :: string
  killSignal :: "os_Signal option"
  kcmd :: "nat option"

record FWConfig =
  Description :: string
  Triggers :: "TriggerEvent list"
  WatchPaths :: "string list"
  WatchDepth :: int

text \<open>
  The functions of packages outside the repository: \<^verbatim>\<open>time.ParseDuration\<close>,
  \<^verbatim>\<open>ignore.ReadIgnore\<close> (its argument is the content of the reader) and
  \<^verbatim>\<open>ignore.Matches\<close> (the file name, then the pattern list).
\<close>

record lib =
  ParseDuration :: "string \<Rightarrow> error + Duration"
  ReadIgnore :: "string \<Rightarrow> error + string list"
  Matches :: "string \<Rightarrow> string list \<Rightarrow> error + bool"

definition newline :: string where
  "newline = [CHR 0x0A]"

text \<open>
  One round of the loop of \<^verbatim>\<open>fixFWConfig\<close>, on the trigger \<^verbatim>\<open>out.Triggers[idx]\<close>: the
  trigger as the round leaves it, and the error the round returns with, if any.
  \<^verbatim>\<open>time.ParseDuration\<close> returns the duration 0 with every error.
\<close>

definition fixTrigger :: "lib \<Rightarrow> signal_table \<Rightarrow> TriggerEvent \<Rightarrow> TriggerEvent \<times> error option" where
  "fixTrigger L sm trigger =
     (let t1 = (if Delay trigger = [] then trigger\<lparr>Delay := ''100ms''\<rparr> else trigger) in
      case ParseDuration L (Delay t1) of
        Inl e \<Rightarrow> (t1\<lparr>delayDuration := 0\<rparr>, Some e)
      | Inr d \<Rightarrow>
          (let t2 = t1\<lparr>delayDuration := d\<rparr>;
               t3 = (if Signal t2 = [] then t2\<lparr>Signal := ''HUP''\<rparr> else t2);
               t4 = t3\<lparr>killSignal := sm (Signal t3)\<rparr>
           in case ReadIgnore L (strings_Join (Pattens t4) newline) of
                Inl e \<Rightarrow> (t4, Some e)
              | Inr patterns \<Rightarrow> (t4\<lparr>matchPattens := patterns\<rparr>, None)))"

fun fixTriggers :: "lib \<Rightarrow> signal_table \<Rightarrow> TriggerEvent list \<Rightarrow> TriggerEvent list \<times> error option" where
  "fixTriggers L sm [] = ([], None)"
| "fixTriggers L sm (trigger # rest) =
     (case fixTrigger L sm trigger of
        (outTg, Some e) \<Rightarrow> (outTg # rest, Some e)
      | (outTg, None) \<Rightarrow>
          (case fixTriggers L sm rest of (rest', err) \<Rightarrow> (outTg # rest', err)))"

text \<open>
  \<^verbatim>\<open>fixFWConfig\<close> returns \<^verbatim>\<open>out\<close> and \<^verbatim>\<open>err\<close>; with a non-nil \<^verbatim>\<open>err\<close> it returns from
  inside the loop, before the defaults of \<^verbatim>\<open>WatchPaths\<close> and \<^verbatim>\<open>WatchDepth\<close>.
\<close>

definition fixFWConfig :: "lib \<Rightarrow> signal_table \<Rightarrow> FWConfig \<Rightarrow> FWConfig \<times> error option" where
  "fixFWConfig L sm inp =
     (case fixTriggers L sm (Triggers inp) of
        (ts, Some e) \<Rightarrow> (inp\<lparr>Triggers := ts\<rparr>, Some e)
      | (ts, None) \<Rightarrow>
          (let out1 = inp\<lparr>Triggers := ts\<rparr>;
               out2 = (if length (WatchPaths out1) = 0
                       then out1\<lparr>WatchPaths := WatchPaths out1 @ [''.'']\<rparr> else out1);
               out3 = (if WatchDepth out2 = 0 then out2\<lparr>WatchDepth := 5\<rparr> else out2)
           in (out3, None)))"

text \<open>
  The delay string and the signal name of a trigger with the defaults applied: \<open>100ms\<close>
  for an empty delay, \<open>HUP\<close> for an empty signal.
\<close>

definition delay_text :: "TriggerEvent \<Rightarrow> string" where
  "delay_text t = (if Delay t = [] then ''100ms'' else Delay t)"

definition signal_name :: "TriggerEvent \<Rightarrow> string" where
  "signal_name t = (if Signal t = [] then ''HUP'' else Signal t)"

subsection \<open>The trigger engine: Start, Stop, WatchEvent\<close>

text \<open>
  What the engine reads from the operating system: the inherited environment
  (\<^verbatim>\<open>os.Environ()\<close>), for each command whether \<^verbatim>\<open>Stop\<close> finds it exited
  (\<^verbatim>\<open>ProcessState != nil && ProcessState.Exited()\<close>; \<^verbatim>\<open>Stop\<close> inspects a command at most
  once), and the error of \<^verbatim>\<open>cmd.Start()\<close>.
\<close>

record proc_env =
  os_Environ :: "string list"
  exited :: "nat \<Rightarrow> bool"
  start_err :: "nat \<Rightarrow> error option"

text \<open>
  What the engine does, in order: \<open>Started n cmd env\<close> is \<^verbatim>\<open>cmd.Start()\<close> of command \<open>n\<close>
  with its command line and \<^verbatim>\<open>cmd.Env\<close>; \<open>Terminated n sig\<close> is
  \<^verbatim>\<open>kcmd.Terminate(killSignal)\<close>; \<open>FoundExited n\<close> is \<^verbatim>\<open>Stop\<close> dropping a command it
  found exited; \<open>Slept d\<close> is \<^verbatim>\<open>time.Sleep(d)\<close>; \<open>Fatal e\<close> is \<^verbatim>\<open>log.Fatal(e)\<close>, which ends
  the program; \<open>Done\<close> is \<^verbatim>\<open>wg.Done()\<close>.
\<close>

datatype action =
    Started nat string "string list"
  | Terminated nat "os_Signal option"
  | FoundExited nat
  | Slept Duration
  | Fatal error
  | Done

record engine =
  tg :: TriggerEvent
  spawned :: nat
  trace :: "action list"

definition Start_env :: "string list \<Rightarrow> (string \<times> string) list \<Rightarrow> string list" where
  "Start_env inherited environ = inherited @ map (\<lambda>(key, val). key @ ''='' @ val) environ"

definition Start :: "proc_env \<Rightarrow> engine \<Rightarrow> error option \<times> engine" where
  "Start env s =
     (let cmd = spawned s;
          cmdEnv = Start_env (os_Environ env) (Environ (tg s))
      in (start_err env cmd,
          s\<lparr>tg := (tg s)\<lparr>kcmd := Some cmd\<rparr>,
            spawned := Suc cmd,
            trace := trace s @ [Started cmd (Command (tg s)) cmdEnv]\<rparr>))"

definition Stop :: "proc_env \<Rightarrow> engine \<Rightarrow> engine" where
  "Stop env s =
     (case kcmd (tg s) of
        None \<Rightarrow> s
      | Some cmd \<Rightarrow>
          if exited env cmd
          then s\<lparr>tg := (tg s)\<lparr>kcmd := None\<rparr>, trace := trace s @ [FoundExited cmd]\<rparr>
          else s\<lparr>tg := (tg s)\<lparr>kcmd := None\<rparr>,
                 trace := trace s @ [Terminated cmd (killSignal (tg s))]\<rparr>)"

text \<open>
  One round of the loop of \<^verbatim>\<open>WatchEvent\<close>: the engine after the round, and the error of
  \<^verbatim>\<open>log.Fatal\<close> if the round ended the program.
\<close>

definition WatchEvent_step :: "lib \<Rightarrow> proc_env \<Rightarrow> FSEvent \<Rightarrow> engine \<Rightarrow> error option \<times> engine" where
  "WatchEvent_step L env evt s =
     (case Matches L (fse_Name evt) (Pattens (tg s)) of
        Inl err \<Rightarrow> (Some err, s\<lparr>trace := trace s @ [Fatal err]\<rparr>)
      | Inr isMatch \<Rightarrow>
          if \<not> isMatch then (None, s)
          else (let s1 = Stop env s;
                    s2 = s1\<lparr>trace := trace s1 @ [Slept (delayDuration (tg s1))]\<rparr>
                in (None, snd (Start env s2))))"

fun WatchEvent_loop :: "lib \<Rightarrow> proc_env \<Rightarrow> FSEvent list \<Rightarrow> engine \<Rightarrow> error option \<times> engine" where
  "WatchEvent_loop L env [] s = (None, s)"
| "WatchEvent_loop L env (evt # rest) s =
     (case WatchEvent_step L env evt s of
        (Some err, s') \<Rightarrow> (Some err, s')
      | (None, s') \<Rightarrow> WatchEvent_loop L env rest s')"

text \<open>
  \<^verbatim>\<open>WatchEvent\<close> for the events the channel delivers before it is closed: the engine
  when the goroutine ends, by \<^verbatim>\<open>wg.Done()\<close> or by \<^verbatim>\<open>log.Fatal\<close>.
\<close>

definition WatchEvent :: "lib \<Rightarrow> proc_env \<Rightarrow> TriggerEvent \<Rightarrow> FSEvent list \<Rightarrow> engine" where
  "WatchEvent L env this events =
     (let s0 = snd (Start env \<lparr>tg = this, spawned = 0, trace = []\<rparr>) in
      case WatchEvent_loop L env events s0 of
        (Some err, s) \<Rightarrow> s
      | (None, s) \<Rightarrow> (let s1 = Stop env s in s1\<lparr>trace := trace s1 @ [Done]\<rparr>))"

text \<open>
  The commands a trace leaves started and not stopped. \<open>Started\<close> adds the command. A
  command counts as stopped once the engine has sent it a signal or has found it
  exited: \<open>Terminated\<close> with a signal and \<open>FoundExited\<close> take the command away.
  \<^verbatim>\<open>Terminate\<close> with a nil signal sends nothing, so \<open>Terminated\<close> without a signal
  leaves the command where it is.
\<close>

fun live :: "action list \<Rightarrow> nat list \<Rightarrow> nat list" where
  "live [] ps = ps"
| "live (Started n c e # as) ps = live as (ps @ [n])"
| "live (Terminated n (Some sg) # as) ps = live as (removeAll n ps)"
| "live (Terminated n None # as) ps = live as ps"
| "live (FoundExited n # as) ps = live as (removeAll n ps)"
| "live (Slept d # as) ps = live as ps"
| "live (Fatal e # as) ps = live as ps"
| "live (Done # as) ps = live as ps"

text \<open>
  What \<^verbatim>\<open>Stop\<close> does to the command the engine holds: nothing when it holds none, a
  mere drop when the command is found exited, the configured signal otherwise.
\<close>

definition stopping :: "proc_env \<Rightarrow> engine \<Rightarrow> action list" where
  "stopping env s =
     (case kcmd (tg s) of
        None \<Rightarrow> []
      | Some cmd \<Rightarrow> if exited env cmd then [FoundExited cmd]
                    else [Terminated cmd (killSignal (tg s))])"

text \<open>At every moment of a trace at most one command is started and not stopped.\<close>

definition at_most_one_live :: "action list \<Rightarrow> bool" where
  "at_most_one_live tr = (\<forall>k \<le> length tr. length (live (take k tr) []) \<le> 1)"

text \<open>
  The invariant of an engine whose termination signal is resolved: its trace never had
  two live commands, and the live command is the one \<open>kcmd\<close> holds.
\<close>

definition holds_current :: "engine \<Rightarrow> bool" where
  "holds_current s =
     (killSignal (tg s) \<noteq> None \<and> at_most_one_live (trace s) \<and>
      live (trace s) [] = (case kcmd (tg s) of None \<Rightarrow> [] | Some cmd \<Rightarrow> [cmd]))"

text \<open>The engine with another list in \<^verbatim>\<open>matchPattens\<close>.\<close>

definition set_matchPattens :: "string list \<Rightarrow> engine \<Rightarrow> engine" where
  "set_matchPattens mp s = s\<lparr>tg := (tg s)\<lparr>matchPattens := mp\<rparr>\<rparr>"

text \<open>
  The run of a trigger engine as the specification words it, as the actions that follow
  the start of the first command. \<open>cmd\<close> is the command that runs. An event whose path
  does not match is discarded. For a matching event the engine stops the command (it
  sends the configured signal, or does nothing to a command that has exited), waits
  the configured delay and starts the next command. When the channel is closed it stops
  the command and ends. A failing match ends the program.
\<close>

definition stop_of :: "proc_env \<Rightarrow> TriggerEvent \<Rightarrow> nat \<Rightarrow> action list" where
  "stop_of env t cmd =
     (if exited env cmd then [FoundExited cmd] else [Terminated cmd (killSignal t)])"

fun engine_trace :: "lib \<Rightarrow> proc_env \<Rightarrow> TriggerEvent \<Rightarrow> FSEvent list \<Rightarrow> nat \<Rightarrow> action list" where
  "engine_trace L env t [] cmd = stop_of env t cmd @ [Done]"
| "engine_trace L env t (evt # rest) cmd =
     (case Matches L (fse_Name evt) (Pattens t) of
        Inl err \<Rightarrow> [Fatal err]
      | Inr isMatch \<Rightarrow>
          if isMatch
          then stop_of env t cmd @
               [Slept (delayDuration t),
                Started (Suc cmd) (Command t) (Start_env (os_Environ env) (Environ t))] @
               engine_trace L env t rest (Suc cmd)
          else engine_trace L env t rest cmd)"

text \<open>
  The results of \<^verbatim>\<open>ignore.Matches\<close> on the path of each event and the raw pattern list
  of a trigger, one call for each event, and what the engine does with a list of such
  results: it restarts on a true one, goes on after a false one and ends the program on
  an error.
\<close>

definition raw_tests :: "lib \<Rightarrow> TriggerEvent \<Rightarrow> FSEvent list \<Rightarrow> (error + bool) list" where
  "raw_tests L t events = map (\<lambda>evt. Matches L (fse_Name evt) (Pattens t)) events"

definition restart :: "proc_env \<Rightarrow> engine \<Rightarrow> engine" where
  "restart env s =
     (let s1 = Stop env s;
          s2 = s1\<lparr>trace := trace s1 @ [Slept (delayDuration (tg s1))]\<rparr>
      in snd (Start env s2))"

fun react :: "proc_env \<Rightarrow> (error + bool) list \<Rightarrow> engine \<Rightarrow> error option \<times> engine" where
  "react env [] s = (None, s)"
| "react env (Inl err # vs) s = (Some err, s\<lparr>trace := trace s @ [Fatal err]\<rparr>)"
| "react env (Inr isMatch # vs) s =
     (if isMatch then react env vs (restart env s) else react env vs s)"

subsection \<open>The environment a started command sees\<close>

text \<open>
  \<^verbatim>\<open>cmd.Env\<close> is a list of \<open>key=value\<close> strings. \<^verbatim>\<open>os/exec\<close> documents that of
  duplicate keys only the last value in the slice is used; an entry without \<open>=\<close> names no
  key.
\<close>

definition env_key :: "string \<Rightarrow> string option" where
  "env_key kv = (if CHR ''='' \<in> set kv then Some (takeWhile (\<lambda>c. c \<noteq> CHR ''='') kv) else None)"

definition env_value :: "string \<Rightarrow> string" where
  "env_value kv = tl (dropWhile (\<lambda>c. c \<noteq> CHR ''='') kv)"

definition env_lookup :: "string list \<Rightarrow> string \<Rightarrow> string option" where
  "env_lookup env key =
     (case filter (\<lambda>kv. env_key kv = Some key) env of
        [] \<Rightarrow> None
      | kv # kvs \<Rightarrow> Some (env_value (last (kv # kvs))))"

subsection \<open>The start of the program\<close>

text \<open>
  The \<^verbatim>\<open>start\<close> case of \<^verbatim>\<open>main\<close>, as far as the watches go: a fresh \<^verbatim>\<open>visits\<close> map and a
  fresh watcher, \<^verbatim>\<open>WatchPathAndChildren\<close>, then \<^verbatim>\<open>transformEvent\<close> on the notifications
  that arrive. \<^verbatim>\<open>transformEvent\<close> gets the watcher and the channel, not \<^verbatim>\<open>visits\<close>.
\<close>

definition main_start :: "(string \<Rightarrow> fsnode option) \<Rightarrow> FWConfig \<Rightarrow> notification list
                            \<Rightarrow> error + visits \<times> pipeline" where
  "main_start lstat fwc ns =
     (case WatchPathAndChildren lstat NewWatcher (WatchPaths fwc) (WatchDepth fwc)
             (Some (\<lambda>_. False)) of
        Inl e \<Rightarrow> Inl e
      | Inr (fsw0, vs) \<Rightarrow>
          Inr (vs, transformEvent ns \<lparr>fsw = fsw0, fileModifyTimeMap = Map.empty, evtC = []\<rparr>))"

text \<open>
  What the initial walk keeps true of the watcher and \<^verbatim>\<open>visits\<close>: every call made so far
  is an \<^verbatim>\<open>Add\<close>, no path was handed to \<^verbatim>\<open>Add\<close> twice, and \<^verbatim>\<open>visits\<close> is true of exactly
  the paths handed to \<^verbatim>\<open>Add\<close>.
\<close>

fun added :: "watcher_call list \<Rightarrow> string list" where
  "added [] = []"
| "added (WAdd p # cs) = p # added cs"
| "added (WRemove p # cs) = added cs"

definition registered :: "Watcher \<times> visits \<Rightarrow> bool" where
  "registered st = (calls (fst st) = map WAdd (added (calls (fst st))) \<and>
                    distinct (added (calls (fst st))) \<and>
                    (\<forall>p. snd st p \<longleftrightarrow> p \<in> set (added (calls (fst st)))))"

subsection \<open>Sample inputs\<close>

text \<open>A file system in which only \<open>path\<close> can be read, a file last modified at \<open>t\<close>.\<close>

definition stat_at :: "string \<Rightarrow> Time \<Rightarrow> stat_fn" where
  "stat_at path t =
     (\<lambda>p. if p = path then Some \<lparr>fi_Name = path, IsDir = False, ModTime = t\<rparr> else None)"

text \<open>A file system in which only \<open>path\<close> can be read, a directory.\<close>

definition dir_at :: "string \<Rightarrow> stat_fn" where
  "dir_at path =
     (\<lambda>p. if p = path then Some \<lparr>fi_Name = basename path, IsDir = True, ModTime = 0\<rparr> else None)"

text \<open>A tree in which the root \<open>.\<close> is an empty directory and no other root can be read.\<close>

definition only_root :: "string \<Rightarrow> fsnode option" where
  "only_root p = (if p = ''.'' then Some (Dir 0 []) else None)"

text \<open>The pipeline after the initial walk of that tree.\<close>

definition pipeline0 :: pipeline where
  "pipeline0 = \<lparr>fsw = \<lparr>calls = [WAdd ''.'']\<rparr>,
                 fileModifyTimeMap = Map.empty, evtC = []\<rparr>"

definition cfg_dot :: FWConfig where
  "cfg_dot = \<lparr>Description = [], Triggers = [], WatchPaths = [''.''], WatchDepth = 5\<rparr>"

text \<open>The notification that the directory \<open>newdir\<close> was created in the root.\<close>

definition mkdir_new :: notification where
  "mkdir_new = \<lparr>n_evt = \<lparr>ev_Name = ''./newdir'', ev_Op = Create\<rparr>,
                 n_stat = dir_at ''./newdir''\<rparr>"

text \<open>The notification that it was removed again.\<close>

definition rmdir_new :: notification where
  "rmdir_new = \<lparr>n_evt = \<lparr>ev_Name = ''./newdir'', ev_Op = Remove\<rparr>, n_stat = (\<lambda>p. None)\<rparr>"

text \<open>
  The functions of the outside packages at the inputs the examples below use: the
  durations \<open>100ms\<close> and \<open>-1s\<close> (\<^verbatim>\<open>time.ParseDuration\<close> takes a sign); pattern
  texts whose lines are plain names without blanks, wildcards, \<open>!\<close>, \<open>#\<close> or \<open>/\<close>, of which
  \<^verbatim>\<open>ignore.ReadIgnore\<close> returns the non-empty lines; and plain file names without \<open>/\<close>,
  which \<^verbatim>\<open>ignore.Matches\<close> matches against such patterns by equality.
\<close>

definition sample_lib :: lib where
  "sample_lib =
     \<lparr>ParseDuration = (\<lambda>s. if s = ''100ms'' then Inr 100000000
                           else if s = ''-1s'' then Inr (- 1000000000)
                           else Inl (ErrDuration s)),
      ReadIgnore = (\<lambda>s. Inr (filter (\<lambda>l. l \<noteq> []) (Split s (CHR 0x0A)))),
      Matches = (\<lambda>file patterns. Inr (file \<in> set patterns))\<rparr>"

text \<open>A trigger as the configuration file gives it, before \<^verbatim>\<open>fixFWConfig\<close>.\<close>

definition trigger_of :: "string list \<Rightarrow> string \<Rightarrow> string \<Rightarrow> TriggerEvent" where
  "trigger_of pattens delay sig =
     \<lparr>Name = ''build'', Pattens = pattens, matchPattens = [], Environ = [],
      Command = ''make'', Delay = delay, delayDuration = 0, Signal = sig,
      killSignal = None, kcmd = None\<rparr>"

definition cfg_of :: "TriggerEvent list \<Rightarrow> FWConfig" where
  "cfg_of ts = \<lparr>Description = [], Triggers = ts, WatchPaths = [], WatchDepth = 0\<rparr>"

text \<open>
  An operating system with an empty environment, in which no command is ever found
  exited and every start succeeds; and one that hands down \<open>PATH\<close> and \<open>HOME\<close>.
\<close>

definition env0 :: proc_env where
  "env0 = \<lparr>os_Environ = [], exited = (\<lambda>_. False), start_err = (\<lambda>_. None)\<rparr>"

definition env1 :: proc_env where
  "env1 = \<lparr>os_Environ = [''PATH=/bin'', ''HOME=/root''], exited = (\<lambda>_. False),
            start_err = (\<lambda>_. None)\<rparr>"

text \<open>
  The trigger \<open>trigger_of [main.go] [] TERM\<close> as \<^verbatim>\<open>fixFWConfig\<close> leaves it, and the engine
  that has just started its first command.
\<close>

definition fixed_trigger :: TriggerEvent where
  "fixed_trigger = (trigger_of [''main.go''] ''100ms'' ''TERM'')
       \<lparr>matchPattens := [''main.go''], delayDuration := 100000000, killSignal := Some SIGTERM\<rparr>"

definition started0 :: engine where
  "started0 = \<lparr>tg = fixed_trigger\<lparr>kcmd := Some 0\<rparr>, spawned = 1,
               trace = [Started 0 ''make'' []]\<rparr>"

text \<open>
  The trigger \<open>trigger_of [main.go] [] FOO\<close> as \<^verbatim>\<open>fixFWConfig\<close> leaves it: \<open>FOO\<close> is no
  key of the table, and the signal is nil.
\<close>

definition unresolved_trigger :: TriggerEvent where
  "unresolved_trigger = (trigger_of [''main.go''] ''100ms'' ''FOO'')
       \<lparr>matchPattens := [''main.go''], delayDuration := 100000000, killSignal := None\<rparr>"

text \<open>A pattern string of two lines, \<open>a\<close> and \<open>b\<close>.\<close>

definition two_lines :: string where
  "two_lines = ''a'' @ newline @ ''b''"

text \<open>An engine whose trigger overrides \<open>PATH\<close> and adds \<open>DEBUG\<close>.\<close>

definition env_engine :: engine where
  "env_engine = \<lparr>tg = fixed_trigger\<lparr>Environ := [(''DEBUG'', ''1''), (''PATH'', ''/opt/bin'')]\<rparr>,
                 spawned = 0, trace = []\<rparr>"

text \<open>
  A tree with a hidden directory, a file and three nested directories.
\<close>

definition sample_tree :: fsnode where
  "sample_tree =
     Dir 0 [(''.git'', Dir 0 [(''hooks'', Dir 0 [])]),
            (''main.go'', File 0),
            (''sub'', Dir 0 [(''sub2'', Dir 0 [(''sub3'', Dir 0 [])])])]"

section \<open>Properties\<close>

subsection \<open>Debounce\<close>

lemma Sub_gt_iff: "Sub t u > Millisecond * 100 \<longleftrightarrow> t - u > 100000000"
  by (simp add: Sub_def maxDuration_def minDuration_def Millisecond_def)

lemma IsChanged_readable:
  "stat path = Some pinfo \<Longrightarrow>
   IsChanged stat m path =
     (if ModTime pinfo - stored m path > 100000000
      then (True, m(path \<mapsto> ModTime pinfo)) else (False, m))"
  by (simp add: IsChanged_def Sub_gt_iff Let_def)

lemma IsChanged_unreadable: "stat path = None \<Longrightarrow> IsChanged stat m path = (True, m)"
  by (simp add: IsChanged_def)

lemma IsChanged_calls_window:
  "stored m path = t0 \<Longrightarrow>
   \<forall>st \<in> set rest. \<exists>i. st path = Some i \<and> ModTime i - t0 \<le> 100000000 \<Longrightarrow>
   IsChanged_calls rest m path = (replicate (length rest) False, m)"
proof (induction rest)
  case Nil
  then show ?case by simp
next
  case (Cons st rest)
  from Cons.prems obtain i where i: "st path = Some i" "ModTime i - t0 \<le> 100000000"
    by auto
  with Cons.prems have "IsChanged st m path = (False, m)"
    by (simp add: IsChanged_readable)
  moreover have "IsChanged_calls rest m path = (replicate (length rest) False, m)"
    using Cons by simp
  ultimately show ?case by simp
qed

text \<open>
  Claim C4, as the code has it. For a notification whose path \<^verbatim>\<open>os.Stat\<close> can read,
  \<^verbatim>\<open>IsChanged\<close> accepts if and only if the modification time exceeds the time stored for
  the path by more than 100 ms (an absent entry counts as the zero time), and it stores
  the modification time exactly when it accepts. Hence if a notification is accepted and
  the notifications after it are readable with modification times at most 100 ms past
  the accepted one, only the first of the run is accepted.
\<close>

theorem debounce_readable:
  assumes "stat path = Some pinfo"
  shows "(fst (IsChanged stat m path) \<longleftrightarrow> ModTime pinfo - stored m path > 100000000) \<and>
         snd (IsChanged stat m path) =
           (if fst (IsChanged stat m path) then m(path \<mapsto> ModTime pinfo) else m) \<and>
         (fst (IsChanged stat m path) \<and>
          (\<forall>st \<in> set rest. \<exists>i. st path = Some i \<and> ModTime i - ModTime pinfo \<le> 100000000)
          \<longrightarrow> fst (IsChanged_calls (stat # rest) m path) = True # replicate (length rest) False)"
proof -
  have step: "IsChanged stat m path =
     (if ModTime pinfo - stored m path > 100000000
      then (True, m(path \<mapsto> ModTime pinfo)) else (False, m))"
    using assms by (rule IsChanged_readable)
  have run: "fst (IsChanged_calls (stat # rest) m path) = True # replicate (length rest) False"
    if acc: "fst (IsChanged stat m path)"
      and win: "\<forall>st \<in> set rest. \<exists>i. st path = Some i \<and> ModTime i - ModTime pinfo \<le> 100000000"
  proof -
    from acc step have first: "IsChanged stat m path = (True, m(path \<mapsto> ModTime pinfo))"
      by (simp split: if_splits)
    have "stored (m(path \<mapsto> ModTime pinfo)) path = ModTime pinfo"
      by (simp add: stored_def)
    then have "IsChanged_calls rest (m(path \<mapsto> ModTime pinfo)) path =
        (replicate (length rest) False, m(path \<mapsto> ModTime pinfo))"
      using win by (rule IsChanged_calls_window)
    with first show ?thesis by simp
  qed
  from step run show ?thesis by simp
qed

text \<open>
  Three notifications for \<open>main.go\<close>, modified at 5 s, 5.01 s and 5.1 s: the first is
  accepted, the other two are not.
\<close>

theorem debounce_readable_witness:
  "fst (IsChanged_calls [stat_at ''main.go'' 5000000000, stat_at ''main.go'' 5010000000,
        stat_at ''main.go'' 5100000000] Map.empty ''main.go'') = [True, False, False]"
  using debounce_readable [of "stat_at ''main.go'' 5000000000" "''main.go''"
      "\<lparr>fi_Name = ''main.go'', IsDir = False, ModTime = 5000000000\<rparr>" Map.empty
      "[stat_at ''main.go'' 5010000000, stat_at ''main.go'' 5100000000]"]
  by (simp add: stat_at_def stored_def)

text \<open>
  Claim C4 as stated fails where the metadata cannot be read: after an accepted
  notification for \<open>main.go\<close>, two notifications that find the file gone are both
  accepted, with no modification time to exceed the stored one, and neither updates the
  stored time.
\<close>

theorem debounce_unreadable_counterexample:
  "IsChanged_calls [stat_at ''main.go'' 5000000000, (\<lambda>p. None), (\<lambda>p. None)] Map.empty ''main.go''
     = ([True, True, True], [''main.go'' \<mapsto> 5000000000])"
  by (simp add: stat_at_def IsChanged_def stored_def Sub_def maxDuration_def minDuration_def
      Millisecond_def)

text \<open>
  Claim C10. When \<^verbatim>\<open>os.Stat\<close> fails for the path of a notification, \<^verbatim>\<open>IsChanged\<close>
  answers true and leaves \<^verbatim>\<open>fileModifyTimeMap\<close> as it is; and \<^verbatim>\<open>transformEvent\<close>, which
  consults \<^verbatim>\<open>IsChanged\<close> for every notification that is not a \<^verbatim>\<open>Remove\<close> (a path that
  cannot be read is no directory), sends the event on the channel and changes nothing
  else.
\<close>

theorem unreadable_forwarded:
  assumes "n_stat n (ev_Name (n_evt n)) = None"
  shows "IsChanged (n_stat n) m (ev_Name (n_evt n)) = (True, m) \<and>
         (ev_Op (n_evt n) \<noteq> Remove \<longrightarrow>
            transformEvent_step n s = s\<lparr>evtC := evtC s @ [\<lparr>fse_Name = ev_Name (n_evt n)\<rparr>]\<rparr>)"
  using assms by (simp add: IsChanged_unreadable transformEvent_step_def IsDirectory_def Let_def)

text \<open>
  A \<^verbatim>\<open>Rename\<close> notification for \<open>old.txt\<close>, which is gone when it is processed, with a
  time stored for it: the event is sent, the stored time stays.
\<close>

theorem unreadable_forwarded_witness:
  "IsChanged (\<lambda>p. None) [''old.txt'' \<mapsto> 7] ''old.txt'' = (True, [''old.txt'' \<mapsto> 7]) \<and>
   transformEvent_step \<lparr>n_evt = \<lparr>ev_Name = ''old.txt'', ev_Op = Rename\<rparr>, n_stat = (\<lambda>p. None)\<rparr>
       \<lparr>fsw = NewWatcher, fileModifyTimeMap = [''old.txt'' \<mapsto> 7], evtC = []\<rparr>
     = \<lparr>fsw = NewWatcher, fileModifyTimeMap = [''old.txt'' \<mapsto> 7],
        evtC = [\<lparr>fse_Name = ''old.txt''\<rparr>]\<rparr>"
  using unreadable_forwarded [of
      "\<lparr>n_evt = \<lparr>ev_Name = ''old.txt'', ev_Op = Rename\<rparr>, n_stat = (\<lambda>p. None)\<rparr>"
      "[''old.txt'' \<mapsto> 7]"
      "\<lparr>fsw = NewWatcher, fileModifyTimeMap = [''old.txt'' \<mapsto> 7], evtC = []\<rparr>"]
  by (simp add: Rename_def Remove_def)

subsection \<open>The change filter\<close>

lemma transformEvent_step_cases:
  "transformEvent_step n s =
     (if ev_Op (n_evt n) = Create \<and> IsDirectory (n_stat n) (ev_Name (n_evt n))
      then s\<lparr>fsw := Watcher_Add (ev_Name (n_evt n)) (fsw s)\<rparr>
      else if ev_Op (n_evt n) = Remove
      then s\<lparr>fsw := Watcher_Remove (ev_Name (n_evt n)) (fsw s)\<rparr>
      else if fst (IsChanged (n_stat n) (fileModifyTimeMap s) (ev_Name (n_evt n)))
      then s\<lparr>fileModifyTimeMap := snd (IsChanged (n_stat n) (fileModifyTimeMap s) (ev_Name (n_evt n))),
             evtC := evtC s @ [\<lparr>fse_Name = ev_Name (n_evt n)\<rparr>]\<rparr>
      else s)"
  apply (simp add: transformEvent_step_def Let_def split: prod.splits)
  apply (auto simp: IsChanged_def Let_def split: option.splits if_splits)
  done

text \<open>
  Claim C3, as the code has it. What one notification adds to the channel and does to the
  watcher: the creation of a directory is not sent and calls \<^verbatim>\<open>Add\<close>; a \<^verbatim>\<open>Remove\<close>
  notification, whatever its path, is not sent and calls \<^verbatim>\<open>Remove\<close>; every other
  notification is sent exactly when \<^verbatim>\<open>IsChanged\<close> accepts it, and leaves the watcher alone.
\<close>

theorem transformEvent_forwarding:
  "evtC (transformEvent_step n s) =
     (if ev_Op (n_evt n) = Create \<and> IsDirectory (n_stat n) (ev_Name (n_evt n)) then evtC s
      else if ev_Op (n_evt n) = Remove then evtC s
      else if fst (IsChanged (n_stat n) (fileModifyTimeMap s) (ev_Name (n_evt n)))
      then evtC s @ [\<lparr>fse_Name = ev_Name (n_evt n)\<rparr>]
      else evtC s) \<and>
   fsw (transformEvent_step n s) =
     (if ev_Op (n_evt n) = Create \<and> IsDirectory (n_stat n) (ev_Name (n_evt n))
      then Watcher_Add (ev_Name (n_evt n)) (fsw s)
      else if ev_Op (n_evt n) = Remove then Watcher_Remove (ev_Name (n_evt n)) (fsw s)
      else fsw s)"
  by (simp add: transformEvent_step_cases)

text \<open>
  Claim C3 as stated fails for the removal of a path that is no watched directory: the
  file \<open>notes.txt\<close> is deleted, the debounce check would accept it, and nothing is sent.
\<close>

theorem remove_not_forwarded_counterexample:
  "fst (IsChanged (\<lambda>p. None) Map.empty ''notes.txt'') \<and>
   \<not> IsDirectory (\<lambda>p. None) ''notes.txt'' \<and>
   WAdd ''notes.txt'' \<notin> set (calls (fsw pipeline0)) \<and>
   evtC (transformEvent_step
           \<lparr>n_evt = \<lparr>ev_Name = ''notes.txt'', ev_Op = Remove\<rparr>, n_stat = (\<lambda>p. None)\<rparr>
           pipeline0) = []"
  by (simp add: transformEvent_step_def IsChanged_def IsDirectory_def pipeline0_def Create_def
      Remove_def Watcher_Remove_def)

subsection \<open>The watch set\<close>

lemma added_append: "added (cs @ ds) = added cs @ added ds"
  by (induction cs rule: added.induct) simp_all

lemma watchDir_registered: "registered st \<Longrightarrow> registered (watchDir dir st)"
  by (cases st) (auto simp: registered_def Watcher_Add_def added_append)

lemma fold_watchDir_registered: "registered st \<Longrightarrow> registered (fold watchDir dirs st)"
  by (induction dirs arbitrary: st) (simp_all add: watchDir_registered)

lemma watchPaths_registered:
  "registered st \<Longrightarrow> watchPaths lstat paths depth st = Inr st' \<Longrightarrow> registered st'"
proof (induction paths arbitrary: st)
  case Nil
  then show ?case by simp
next
  case (Cons path paths)
  show ?case
  proof (cases "snd st path")
    case True
    with Cons show ?thesis by simp
  next
    case False
    with Cons.prems obtain dirs where d: "ListAllDir (lstat path) path depth = Inr dirs"
      and r: "watchPaths lstat paths depth (fold watchDir dirs (watchDir path st)) = Inr st'"
      by (auto split: sum.splits)
    have "registered (fold watchDir dirs (watchDir path st))"
      using Cons.prems(1) by (simp add: fold_watchDir_registered watchDir_registered)
    then show ?thesis using r by (rule Cons.IH)
  qed
qed

lemma main_start_visits:
  assumes "main_start lstat fwc ns = Inr (vs, p)"
  shows "\<exists>p0. main_start lstat fwc [] = Inr (vs, p0) \<and> registered (fsw p0, vs)"
proof -
  from assms obtain w where
    w: "WatchPathAndChildren lstat NewWatcher (WatchPaths fwc) (WatchDepth fwc) (Some (\<lambda>_. False))
          = Inr (w, vs)"
    by (auto simp: main_start_def split: sum.splits)
  have "registered (NewWatcher, \<lambda>_. False)"
    by (simp add: registered_def NewWatcher_def)
  with w have "registered (w, vs)"
    unfolding WatchPathAndChildren_def by (auto dest: watchPaths_registered)
  with w show ?thesis by (simp add: main_start_def)
qed

text \<open>
  Claim C8, as the code has it. At run time a directory-creation notification makes the
  one call \<^verbatim>\<open>Add\<close> on the watcher for the created path, a \<^verbatim>\<open>Remove\<close> notification makes
  the one call \<^verbatim>\<open>Remove\<close> for its path, and every other notification makes no call. The
  \<^verbatim>\<open>visits\<close> map is not touched at run time: whatever notifications arrive, it is the map
  the initial walk left, and after that walk the calls made are \<^verbatim>\<open>Add\<close> calls, no path
  was handed over twice, and \<^verbatim>\<open>visits\<close> marks exactly the paths handed over.
\<close>

theorem watch_set_runtime:
  "calls (fsw (transformEvent_step n s)) =
     calls (fsw s) @
     (if ev_Op (n_evt n) = Create \<and> IsDirectory (n_stat n) (ev_Name (n_evt n))
      then [WAdd (ev_Name (n_evt n))]
      else if ev_Op (n_evt n) = Remove then [WRemove (ev_Name (n_evt n))]
      else []) \<and>
   (main_start lstat fwc ns = Inr (vs, p) \<longrightarrow>
      (\<exists>p0. main_start lstat fwc [] = Inr (vs, p0) \<and> registered (fsw p0, vs)))"
proof (intro conjI impI)
  show "calls (fsw (transformEvent_step n s)) =
     calls (fsw s) @
     (if ev_Op (n_evt n) = Create \<and> IsDirectory (n_stat n) (ev_Name (n_evt n))
      then [WAdd (ev_Name (n_evt n))]
      else if ev_Op (n_evt n) = Remove then [WRemove (ev_Name (n_evt n))]
      else [])"
    by (simp add: transformEvent_step_cases Watcher_Add_def Watcher_Remove_def)
next
  assume "main_start lstat fwc ns = Inr (vs, p)"
  then show "\<exists>p0. main_start lstat fwc [] = Inr (vs, p0) \<and> registered (fsw p0, vs)"
    by (rule main_start_visits)
qed

lemma main_start_sample:
  "main_start only_root cfg_dot [mkdir_new, rmdir_new] =
      Inr ((\<lambda>_. False)(''.'' := True),
           \<lparr>fsw = \<lparr>calls = [WAdd ''.'', WAdd ''./newdir'', WRemove ''./newdir'']\<rparr>,
            fileModifyTimeMap = Map.empty, evtC = []\<rparr>)"
  by (simp add: main_start_def WatchPathAndChildren_def only_root_def cfg_dot_def mkdir_new_def
      rmdir_new_def ListAllDir_def listDir_def basename_def HasPrefix_def Count_def
      PathSeparator_def NewWatcher_def Watcher_Add_def Watcher_Remove_def transformEvent_step_def
      dir_at_def IsDirectory_def Create_def Remove_def)

text \<open>
  The program starts on the root \<open>.\<close>; \<open>newdir\<close> is created and removed again. The two
  notifications make one \<^verbatim>\<open>Add\<close> and one \<^verbatim>\<open>Remove\<close> call, and \<^verbatim>\<open>visits\<close> marks \<open>.\<close> alone,
  as after the walk.
\<close>

theorem watch_set_runtime_witness:
  "calls (fsw (transformEvent_step mkdir_new pipeline0)) = [WAdd ''.'', WAdd ''./newdir''] \<and>
   (\<exists>p0. main_start only_root cfg_dot [] = Inr ((\<lambda>_. False)(''.'' := True), p0) \<and>
          registered (fsw p0, (\<lambda>_. False)(''.'' := True)))"
proof -
  note T = watch_set_runtime [of mkdir_new pipeline0 only_root cfg_dot "[mkdir_new, rmdir_new]"
        "(\<lambda>_. False)(''.'' := True)"
        "\<lparr>fsw = \<lparr>calls = [WAdd ''.'', WAdd ''./newdir'', WRemove ''./newdir'']\<rparr>,
            fileModifyTimeMap = Map.empty, evtC = []\<rparr>"]
  have c: "ev_Op (n_evt mkdir_new) = Create \<and>
           IsDirectory (n_stat mkdir_new) (ev_Name (n_evt mkdir_new))"
    by (simp add: mkdir_new_def dir_at_def IsDirectory_def)
  have n: "ev_Name (n_evt mkdir_new) = ''./newdir''"
    by (simp add: mkdir_new_def)
  have w0: "calls (fsw pipeline0) = [WAdd ''.'']"
    by (simp add: pipeline0_def)
  have 1: "calls (fsw (transformEvent_step mkdir_new pipeline0)) = [WAdd ''.'', WAdd ''./newdir'']"
    using T [THEN conjunct1, unfolded if_P [OF c]] by (simp only: n w0 append.simps)
  have 2: "\<exists>p0. main_start only_root cfg_dot [] = Inr ((\<lambda>_. False)(''.'' := True), p0) \<and>
          registered (fsw p0, (\<lambda>_. False)(''.'' := True))"
    using T [THEN conjunct2] main_start_sample by (rule mp)
  from 1 2 show ?thesis by (intro conjI)
qed

text \<open>
  Claim C8 as stated fails. After the program has started on the root \<open>.\<close> and the
  creation of \<open>newdir\<close> was notified twice, the \<^verbatim>\<open>visits\<close> map does not know the created
  path, and the path was handed to the watcher twice.
\<close>

theorem watch_set_counterexample:
  "(case main_start only_root cfg_dot [mkdir_new, mkdir_new] of
      Inl e \<Rightarrow> False
    | Inr (vs, p) \<Rightarrow>
        \<not> vs ''./newdir'' \<and>
        calls (fsw p) = [WAdd ''.'', WAdd ''./newdir'', WAdd ''./newdir''])"
  by (simp add: main_start_def WatchPathAndChildren_def only_root_def cfg_dot_def mkdir_new_def
      ListAllDir_def listDir_def basename_def HasPrefix_def Count_def PathSeparator_def
      NewWatcher_def Watcher_Add_def transformEvent_step_def dir_at_def IsDirectory_def)

subsection \<open>Configuration fix-up\<close>

lemma fixTrigger_ok:
  assumes "fixTrigger L sm t = (t', None)"
  shows "ParseDuration L (delay_text t) = Inr (delayDuration t') \<and>
         Delay t' = delay_text t \<and> Signal t' = signal_name t \<and>
         killSignal t' = sm (signal_name t) \<and>
         ReadIgnore L (strings_Join (Pattens t) newline) = Inr (matchPattens t') \<and>
         Pattens t' = Pattens t \<and> Environ t' = Environ t \<and> Command t' = Command t \<and>
         Name t' = Name t \<and> kcmd t' = kcmd t"
  using assms
  by (auto simp: fixTrigger_def delay_text_def signal_name_def Let_def split: sum.splits if_splits)

lemma fixTrigger_err:
  assumes "fixTrigger L sm t = (t', Some e)"
  shows "ParseDuration L (delay_text t) = Inl e \<or>
         ReadIgnore L (strings_Join (Pattens t) newline) = Inl e"
  using assms
  by (auto simp: fixTrigger_def delay_text_def signal_name_def Let_def split: sum.splits if_splits)

lemma fixTriggers_ok:
  "fixTriggers L sm ts = (ts', None) \<Longrightarrow>
   length ts' = length ts \<and> (\<forall>i < length ts. fixTrigger L sm (ts ! i) = (ts' ! i, None))"
proof (induction ts arbitrary: ts')
  case Nil
  then show ?case by simp
next
  case (Cons t ts)
  from Cons.prems obtain u us where u: "fixTrigger L sm t = (u, None)"
    and us: "fixTriggers L sm ts = (us, None)" and eq: "ts' = u # us"
    by (auto split: prod.splits option.splits)
  from Cons.IH [OF us] have ih: "length us = length ts"
    "\<forall>i < length ts. fixTrigger L sm (ts ! i) = (us ! i, None)" by simp_all
  show ?case
  proof (intro conjI allI impI)
    show "length ts' = length (t # ts)" using eq ih by simp
  next
    fix i assume "i < length (t # ts)"
    then show "fixTrigger L sm ((t # ts) ! i) = (ts' ! i, None)"
      using u ih eq by (cases i) simp_all
  qed
qed

lemma fixTriggers_err:
  "fixTriggers L sm ts = (ts', Some e) \<Longrightarrow> \<exists>t \<in> set ts. \<exists>t'. fixTrigger L sm t = (t', Some e)"
proof (induction ts arbitrary: ts')
  case Nil
  then show ?case by simp
next
  case (Cons t ts)
  then show ?case
    by (fastforce split: prod.splits option.splits)
qed

text \<open>
  Claim C1, as the code has it. When \<^verbatim>\<open>fixFWConfig\<close> returns no error, the triggers are
  as many as before, the \<^verbatim>\<open>delayDuration\<close> of each is the duration
  \<^verbatim>\<open>time.ParseDuration\<close> returns for its delay string (\<open>100ms\<close> for an empty one),
  whatever its sign, and the \<^verbatim>\<open>killSignal\<close> of each trigger whose signal name (\<open>HUP\<close> for
  an empty one) is a key of the table is the signal the table holds for it. When it
  returns an error, that error is the one \<^verbatim>\<open>time.ParseDuration\<close> gave for some trigger's
  delay string or \<^verbatim>\<open>ignore.ReadIgnore\<close> gave for some trigger's pattern list.
\<close>

theorem fixFWConfig_triggers:
  "(fixFWConfig L sm inp = (out, None) \<and> i < length (Triggers inp) \<longrightarrow>
      length (Triggers out) = length (Triggers inp) \<and>
      ParseDuration L (delay_text (Triggers inp ! i)) = Inr (delayDuration (Triggers out ! i)) \<and>
      (\<forall>sg. sm (signal_name (Triggers inp ! i)) = Some sg \<longrightarrow>
            killSignal (Triggers out ! i) = Some sg)) \<and>
   (fixFWConfig L sm inp = (out, Some e) \<longrightarrow>
      (\<exists>t \<in> set (Triggers inp).
          ParseDuration L (delay_text t) = Inl e \<or>
          ReadIgnore L (strings_Join (Pattens t) newline) = Inl e))"
proof (intro conjI impI)
  assume a: "fixFWConfig L sm inp = (out, None) \<and> i < length (Triggers inp)"
  then obtain ts where ts: "fixTriggers L sm (Triggers inp) = (ts, None)"
    and out: "Triggers out = ts"
    by (auto simp: fixFWConfig_def Let_def split: prod.splits option.splits if_splits)
  from fixTriggers_ok [OF ts] a have len: "length ts = length (Triggers inp)"
    and fx: "fixTrigger L sm (Triggers inp ! i) = (ts ! i, None)" by simp_all
  from fixTrigger_ok [OF fx] out len
  show "length (Triggers out) = length (Triggers inp)"
    "ParseDuration L (delay_text (Triggers inp ! i)) = Inr (delayDuration (Triggers out ! i))"
    "\<forall>sg. sm (signal_name (Triggers inp ! i)) = Some sg \<longrightarrow>
            killSignal (Triggers out ! i) = Some sg"
    by simp_all
next
  assume "fixFWConfig L sm inp = (out, Some e)"
  then obtain ts where "fixTriggers L sm (Triggers inp) = (ts, Some e)"
    by (auto simp: fixFWConfig_def Let_def split: prod.splits option.splits if_splits)
  from fixTriggers_err [OF this] obtain t t' where "t \<in> set (Triggers inp)"
    "fixTrigger L sm t = (t', Some e)" by blast
  then show "\<exists>t \<in> set (Triggers inp).
          ParseDuration L (delay_text t) = Inl e \<or>
          ReadIgnore L (strings_Join (Pattens t) newline) = Inl e"
    using fixTrigger_err by blast
qed

text \<open>
  However the loop of \<^verbatim>\<open>init\<close> goes, \<open>FOO\<close> is no key of the table: every key the loop
  inserts starts with \<open>SIG\<close> or is a number.
\<close>

lemma init_entry_FOO: "m ''FOO'' = None \<Longrightarrow> init_entry key m ''FOO'' = None"
proof (cases "m key")
  case None
  then show "m ''FOO'' = None \<Longrightarrow> ?thesis" by (simp add: init_entry_def)
next
  case (Some val)
  then show "m ''FOO'' = None \<Longrightarrow> ?thesis"
    by (cases val) (simp_all add: init_entry_def)
qed

lemma fold_init_entry_FOO: "m ''FOO'' = None \<Longrightarrow> fold init_entry visited m ''FOO'' = None"
  by (induction visited arbitrary: m) (simp_all add: init_entry_FOO)

lemma init_table_FOO: "init_table visited ''FOO'' = None"
  by (simp add: init_table_def fold_init_entry_FOO signalMaps_literal_def)

lemma signalMaps_TERM: "signalMaps ''TERM'' = Some SIGTERM"
  by (simp add: signalMaps_def init_table_def signalMaps_literal_def init_entry_def)

lemma signalMaps_HUP: "signalMaps ''HUP'' = Some SIGHUP"
  by (simp add: signalMaps_def init_table_def signalMaps_literal_def init_entry_def)

lemma signalMaps_FOO: "signalMaps ''FOO'' = None"
  by (simp add: signalMaps_def init_table_def signalMaps_literal_def init_entry_def)

lemma fix_sample:
  "fixFWConfig sample_lib signalMaps (cfg_of [trigger_of [''main.go''] [] ''TERM'']) =
     (\<lparr>Description = [], Triggers = [(trigger_of [''main.go''] ''100ms'' ''TERM'')
         \<lparr>matchPattens := [''main.go''], delayDuration := 100000000, killSignal := Some SIGTERM\<rparr>],
       WatchPaths = [''.''], WatchDepth = 5\<rparr>, None)"
  by (simp add: fixFWConfig_def fixTrigger_def sample_lib_def cfg_of_def trigger_of_def
      newline_def signalMaps_TERM Let_def)

text \<open>
  A trigger with an empty delay and the signal \<open>TERM\<close> gets 100 ms and \<open>SIGTERM\<close>; a
  trigger whose delay is \<open>soon\<close> fails the fix-up with the error of the parser.
\<close>

theorem fixFWConfig_triggers_witness:
  "delayDuration (hd (Triggers (fst (fixFWConfig sample_lib signalMaps
       (cfg_of [trigger_of [''main.go''] [] ''TERM''])))) ) = 100000000 \<and>
   killSignal (hd (Triggers (fst (fixFWConfig sample_lib signalMaps
       (cfg_of [trigger_of [''main.go''] [] ''TERM'']))))) = Some SIGTERM \<and>
   (\<exists>t \<in> set [trigger_of [] ''soon'' []].
      ParseDuration sample_lib (delay_text t) = Inl (ErrDuration ''soon'') \<or>
      ReadIgnore sample_lib (strings_Join (Pattens t) newline) = Inl (ErrDuration ''soon''))"
proof -
  let ?out = "\<lparr>Description = [], Triggers = [(trigger_of [''main.go''] ''100ms'' ''TERM'')
         \<lparr>matchPattens := [''main.go''], delayDuration := 100000000, killSignal := Some SIGTERM\<rparr>],
       WatchPaths = [''.''], WatchDepth = 5\<rparr>"
  note T = fixFWConfig_triggers [of sample_lib signalMaps
      "cfg_of [trigger_of [''main.go''] [] ''TERM'']" ?out 0 _, THEN conjunct1, THEN mp]
  have h: "fixFWConfig sample_lib signalMaps (cfg_of [trigger_of [''main.go''] [] ''TERM'']) = (?out, None)
      \<and> 0 < length (Triggers (cfg_of [trigger_of [''main.go''] [] ''TERM'']))"
    by (simp add: fix_sample) (simp add: cfg_of_def)
  have 1: "delayDuration (hd (Triggers (fst (fixFWConfig sample_lib signalMaps
       (cfg_of [trigger_of [''main.go''] [] ''TERM''])))) ) = 100000000"
    by (simp add: fix_sample)
  have 2: "killSignal (hd (Triggers (fst (fixFWConfig sample_lib signalMaps
       (cfg_of [trigger_of [''main.go''] [] ''TERM'']))))) = Some SIGTERM"
    using T [OF h] by (simp add: fix_sample)
  have e: "fixFWConfig sample_lib signalMaps (cfg_of [trigger_of [] ''soon'' []]) =
     (cfg_of [(trigger_of [] ''soon'' [])\<lparr>delayDuration := 0\<rparr>], Some (ErrDuration ''soon''))"
    by (simp add: fixFWConfig_def fixTrigger_def sample_lib_def cfg_of_def trigger_of_def Let_def)
  have 3: "\<exists>t \<in> set [trigger_of [] ''soon'' []].
      ParseDuration sample_lib (delay_text t) = Inl (ErrDuration ''soon'') \<or>
      ReadIgnore sample_lib (strings_Join (Pattens t) newline) = Inl (ErrDuration ''soon'')"
    using fixFWConfig_triggers [of sample_lib signalMaps "cfg_of [trigger_of [] ''soon'' []]"
        "cfg_of [(trigger_of [] ''soon'' [])\<lparr>delayDuration := 0\<rparr>]" 0 "ErrDuration ''soon''",
        THEN conjunct2, THEN mp, OF e]
    by (simp add: cfg_of_def)
  from 1 2 3 show ?thesis by (intro conjI)
qed

text \<open>
  Claim C1 as stated fails: for a first trigger with the delay \<open>-1s\<close> and a second with
  the signal \<open>FOO\<close>, \<^verbatim>\<open>fixFWConfig\<close> returns no error, a negative delay for the first and
  a nil signal for the second.
\<close>

theorem fixFWConfig_unset_counterexample:
  "snd (fixFWConfig sample_lib signalMaps
          (cfg_of [trigger_of [] ''-1s'' [], trigger_of [] [] ''FOO''])) = None \<and>
   delayDuration (Triggers (fst (fixFWConfig sample_lib signalMaps
          (cfg_of [trigger_of [] ''-1s'' [], trigger_of [] [] ''FOO'']))) ! 0) = - 1000000000 \<and>
   killSignal (Triggers (fst (fixFWConfig sample_lib signalMaps
          (cfg_of [trigger_of [] ''-1s'' [], trigger_of [] [] ''FOO'']))) ! 1) = None"
  by (simp add: fixFWConfig_def fixTrigger_def sample_lib_def cfg_of_def trigger_of_def
      signalMaps_FOO signalMaps_HUP Let_def newline_def)

subsection \<open>The trigger engine\<close>

lemma Stop_effect:
  "trace (Stop env s) = trace s @ stopping env s \<and> spawned (Stop env s) = spawned s \<and>
   tg (Stop env s) = (tg s)\<lparr>kcmd := None\<rparr>"
  by (simp add: Stop_def stopping_def split: option.splits)

lemma Start_effect:
  "trace (snd (Start env s)) =
     trace s @ [Started (spawned s) (Command (tg s)) (Start_env (os_Environ env) (Environ (tg s)))] \<and>
   spawned (snd (Start env s)) = Suc (spawned s) \<and>
   tg (snd (Start env s)) = (tg s)\<lparr>kcmd := Some (spawned s)\<rparr>"
  by (simp add: Start_def Let_def)

lemma live_append: "live (xs @ ys) ps = live ys (live xs ps)"
  by (induction xs ps rule: live.induct) simp_all

lemma at_most_one_live_snoc:
  "at_most_one_live tr \<Longrightarrow> length (live (tr @ [a]) []) \<le> 1 \<Longrightarrow> at_most_one_live (tr @ [a])"
  unfolding at_most_one_live_def
proof (intro allI impI)
  fix k
  assume old: "\<forall>k \<le> length tr. length (live (take k tr) []) \<le> 1"
    and new: "length (live (tr @ [a]) []) \<le> 1" and k: "k \<le> length (tr @ [a])"
  show "length (live (take k (tr @ [a])) []) \<le> 1"
  proof (cases "k \<le> length tr")
    case True
    with old show ?thesis by simp
  next
    case False
    with k have "k = Suc (length tr)" by simp
    with new show ?thesis by simp
  qed
qed

lemma holds_current_Stop: "holds_current s \<Longrightarrow> holds_current (Stop env s)"
  unfolding holds_current_def
  by (cases "kcmd (tg s)")
     (auto simp: Stop_def live_append intro!: at_most_one_live_snoc)

lemma holds_current_Slept:
  "holds_current s \<Longrightarrow> holds_current (s\<lparr>trace := trace s @ [Slept d]\<rparr>)"
  unfolding holds_current_def
  by (auto simp: live_append split: option.splits intro!: at_most_one_live_snoc)

lemma holds_current_Start:
  "killSignal (tg s) \<noteq> None \<Longrightarrow> at_most_one_live (trace s) \<Longrightarrow> live (trace s) [] = [] \<Longrightarrow>
   holds_current (snd (Start env s))"
  unfolding holds_current_def
  by (auto simp: Start_def Let_def live_append intro!: at_most_one_live_snoc)

lemma holds_current_step:
  "holds_current s \<Longrightarrow> holds_current (snd (WatchEvent_step L env evt s))"
proof -
  assume h: "holds_current s"
  show ?thesis
  proof (cases "Matches L (fse_Name evt) (Pattens (tg s))")
    case (Inl err)
    with h show ?thesis
      unfolding holds_current_def
      by (auto simp: WatchEvent_step_def live_append split: option.splits
          intro!: at_most_one_live_snoc)
  next
    case (Inr isMatch)
    show ?thesis
    proof (cases isMatch)
      case False
      with Inr h show ?thesis by (simp add: WatchEvent_step_def)
    next
      case True
      let ?s1 = "Stop env s"
      let ?s2 = "?s1\<lparr>trace := trace ?s1 @ [Slept (delayDuration (tg ?s1))]\<rparr>"
      have "holds_current ?s2"
        using h by (intro holds_current_Slept holds_current_Stop)
      moreover have "kcmd (tg ?s2) = None" by (simp add: Stop_effect)
      ultimately have "killSignal (tg ?s2) \<noteq> None" "at_most_one_live (trace ?s2)"
        "live (trace ?s2) [] = []"
        by (simp_all add: holds_current_def)
      then have "holds_current (snd (Start env ?s2))" by (rule holds_current_Start)
      with Inr True show ?thesis by (simp add: WatchEvent_step_def Let_def)
    qed
  qed
qed

lemma holds_current_loop:
  "holds_current s \<Longrightarrow> holds_current (snd (WatchEvent_loop L env events s))"
proof (induction events arbitrary: s)
  case Nil
  then show ?case by simp
next
  case (Cons evt rest)
  have "holds_current (snd (WatchEvent_step L env evt s))"
    using Cons.prems by (rule holds_current_step)
  then show ?case
    using Cons.IH [of "snd (WatchEvent_step L env evt s)"]
    by (cases "WatchEvent_step L env evt s") (auto split: option.splits)
qed

lemma holds_current_WatchEvent:
  assumes "killSignal this \<noteq> None"
  shows "holds_current (WatchEvent L env this events)"
proof -
  let ?s0 = "snd (Start env \<lparr>tg = this, spawned = 0, trace = []\<rparr>)"
  have "at_most_one_live []" by (simp add: at_most_one_live_def)
  then have "holds_current ?s0" using assms by (intro holds_current_Start) simp_all
  then have l: "holds_current (snd (WatchEvent_loop L env events ?s0))"
    by (rule holds_current_loop)
  show ?thesis
  proof (cases "WatchEvent_loop L env events ?s0")
    case (Pair err s)
    with l have s: "holds_current s" by simp
    show ?thesis
    proof (cases err)
      case None
      have "holds_current (Stop env s)" using s by (rule holds_current_Stop)
      then have "holds_current ((Stop env s)\<lparr>trace := trace (Stop env s) @ [Done]\<rparr>)"
        unfolding holds_current_def
        by (auto simp: live_append split: option.splits intro!: at_most_one_live_snoc)
      with Pair None show ?thesis by (simp add: WatchEvent_def Let_def)
    next
      case (Some e)
      with Pair s show ?thesis by (simp add: WatchEvent_def Let_def)
    qed
  qed
qed

text \<open>
  Claim C5, as the code has it. For a trigger whose termination signal is resolved,
  whatever events it receives before its channel is closed, at every moment of the run
  of \<^verbatim>\<open>WatchEvent\<close> at most one command of the trigger is started and not yet stopped,
  where a command is stopped once the engine has sent it the signal or has found it
  exited.
\<close>

theorem one_live_process:
  assumes "killSignal this \<noteq> None"
  shows "\<forall>k \<le> length (trace (WatchEvent L env this events)).
            length (live (take k (trace (WatchEvent L env this events))) []) \<le> 1"
  using holds_current_WatchEvent [OF assms, of L env events]
  by (simp add: holds_current_def at_most_one_live_def)

lemma Start_fixed_trigger: "snd (Start env0 \<lparr>tg = fixed_trigger, spawned = 0, trace = []\<rparr>) = started0"
  by (simp add: Start_def started0_def env0_def Start_env_def fixed_trigger_def trigger_of_def)

lemma sample_run:
  "trace (WatchEvent sample_lib env0 fixed_trigger [\<lparr>fse_Name = ''main.go''\<rparr>, \<lparr>fse_Name = ''README.md''\<rparr>])
     = [Started 0 ''make'' [], Terminated 0 (Some SIGTERM), Slept 100000000,
        Started 1 ''make'' [], Terminated 1 (Some SIGTERM), Done]"
  by (simp add: WatchEvent_def Start_fixed_trigger Let_def)
     (simp add: started0_def WatchEvent_step_def sample_lib_def fixed_trigger_def trigger_of_def
        Stop_def Start_def env0_def Start_env_def Let_def)

text \<open>
  The run on a change of \<open>main.go\<close> and then of \<open>README.md\<close>, for a trigger with the signal
  \<open>SIGTERM\<close>: after the first four actions the second command is the one live command.
\<close>

theorem one_live_process_witness:
  "length (live (take 4 (trace (WatchEvent sample_lib env0 fixed_trigger
       [\<lparr>fse_Name = ''main.go''\<rparr>, \<lparr>fse_Name = ''README.md''\<rparr>]))) []) \<le> 1 \<and>
   live (take 4 (trace (WatchEvent sample_lib env0 fixed_trigger
       [\<lparr>fse_Name = ''main.go''\<rparr>, \<lparr>fse_Name = ''README.md''\<rparr>]))) [] = [1]"
proof -
  have r: "killSignal fixed_trigger \<noteq> None"
    by (simp add: fixed_trigger_def)
  have "4 \<le> length (trace (WatchEvent sample_lib env0 fixed_trigger
       [\<lparr>fse_Name = ''main.go''\<rparr>, \<lparr>fse_Name = ''README.md''\<rparr>]))"
    by (simp add: sample_run)
  with one_live_process [OF r, of sample_lib env0
       "[\<lparr>fse_Name = ''main.go''\<rparr>, \<lparr>fse_Name = ''README.md''\<rparr>]"]
  have "length (live (take 4 (trace (WatchEvent sample_lib env0 fixed_trigger
       [\<lparr>fse_Name = ''main.go''\<rparr>, \<lparr>fse_Name = ''README.md''\<rparr>]))) []) \<le> 1"
    by blast
  moreover have "live (take 4 (trace (WatchEvent sample_lib env0 fixed_trigger
       [\<lparr>fse_Name = ''main.go''\<rparr>, \<lparr>fse_Name = ''README.md''\<rparr>]))) [] = [1]"
    by (simp add: sample_run)
  ultimately show ?thesis by (intro conjI)
qed

text \<open>
  Claim C5 as stated fails for a trigger whose signal name is no key of the table.
  \<^verbatim>\<open>fixFWConfig\<close> accepts the name \<open>FOO\<close> and leaves the signal nil; on a change of
  \<open>main.go\<close> the engine calls \<^verbatim>\<open>Terminate\<close> with the nil signal, which sends nothing, and
  starts the second command while the first was never stopped: two commands are live.
\<close>

theorem nil_signal_counterexample:
  "fixFWConfig sample_lib signalMaps (cfg_of [trigger_of [''main.go''] [] ''FOO'']) =
     (\<lparr>Description = [], Triggers = [unresolved_trigger], WatchPaths = [''.''], WatchDepth = 5\<rparr>,
      None) \<and>
   take 4 (trace (WatchEvent sample_lib env0 unresolved_trigger [\<lparr>fse_Name = ''main.go''\<rparr>])) =
     [Started 0 ''make'' [], Terminated 0 None, Slept 100000000, Started 1 ''make'' []] \<and>
   live (take 4 (trace (WatchEvent sample_lib env0 unresolved_trigger [\<lparr>fse_Name = ''main.go''\<rparr>]))) []
     = [0, 1]"
  by (simp add: fixFWConfig_def fixTrigger_def sample_lib_def cfg_of_def trigger_of_def
      unresolved_trigger_def newline_def signalMaps_FOO Let_def WatchEvent_def WatchEvent_step_def
      Start_def Stop_def env0_def Start_env_def)

lemma run_trace:
  "tg s = this\<lparr>kcmd := Some cmd\<rparr> \<Longrightarrow> spawned s = Suc cmd \<Longrightarrow>
   trace (case WatchEvent_loop L env events s of
            (Some err, s') \<Rightarrow> s'
          | (None, s') \<Rightarrow> (let s1 = Stop env s' in s1\<lparr>trace := trace s1 @ [Done]\<rparr>))
     = trace s @ engine_trace L env this events cmd"
proof (induction events arbitrary: s cmd)
  case Nil
  then show ?case
    by (simp add: Let_def Stop_effect stopping_def stop_of_def)
next
  case (Cons evt rest)
  have p: "Pattens (tg s) = Pattens this" using Cons.prems by simp
  show ?case
  proof (cases "Matches L (fse_Name evt) (Pattens this)")
    case (Inl err)
    with p show ?thesis by (simp add: WatchEvent_step_def)
  next
    case (Inr isMatch)
    show ?thesis
    proof (cases isMatch)
      case False
      with Inr p have "WatchEvent_step L env evt s = (None, s)"
        by (simp add: WatchEvent_step_def)
      with Inr False Cons.IH [OF Cons.prems] show ?thesis by simp
    next
      case True
      let ?s' = "snd (Start env ((Stop env s)\<lparr>trace := trace (Stop env s) @
                [Slept (delayDuration (tg (Stop env s)))]\<rparr>))"
      from Inr True p have st: "WatchEvent_step L env evt s = (None, ?s')"
        by (simp add: WatchEvent_step_def Let_def)
      have t: "tg ?s' = this\<lparr>kcmd := Some (Suc cmd)\<rparr>" and sp: "spawned ?s' = Suc (Suc cmd)"
        using Cons.prems by (simp_all add: Start_effect Stop_effect)
      have tr: "trace ?s' = trace s @ stop_of env this cmd @
               [Slept (delayDuration this),
                Started (Suc cmd) (Command this) (Start_env (os_Environ env) (Environ this))]"
        using Cons.prems by (simp add: Start_effect Stop_effect stopping_def stop_of_def)
      from Cons.IH [OF t sp] st Inr True tr show ?thesis by simp
    qed
  qed
qed

text \<open>
  Claim C7. The actions of a run of \<^verbatim>\<open>WatchEvent\<close> are the start of the first command
  and then the run as the specification words it: an event whose path does not match
  adds no action and leaves the command alone; a matching event makes the engine stop
  the command it holds (nothing is sent when the command is found exited), then sleep
  the trigger's delay, then start a new command, in this order; when the channel is
  closed the engine stops the command it holds and ends with \<^verbatim>\<open>wg.Done()\<close>.
\<close>

theorem restart_sequence:
  "trace (WatchEvent L env this events) =
     Started 0 (Command this) (Start_env (os_Environ env) (Environ this)) #
     engine_trace L env this events 0"
proof -
  let ?s0 = "snd (Start env \<lparr>tg = this, spawned = 0, trace = []\<rparr>)"
  have "tg ?s0 = this\<lparr>kcmd := Some 0\<rparr>" "spawned ?s0 = Suc 0"
    by (simp_all add: Start_effect)
  from run_trace [where L = L and env = env and events = events, OF this]
  show ?thesis by (simp add: WatchEvent_def Start_effect)
qed

text \<open>
  The trigger on \<open>main.go\<close> receives a change of \<open>README.md\<close>, a change of \<open>main.go\<close> and
  another change of \<open>README.md\<close>, and then its channel is closed: the first and the third
  event add nothing, the second gives signal, sleep and start, and the closing gives
  the signal and the end.
\<close>

theorem restart_sequence_witness:
  "trace (WatchEvent sample_lib env0 fixed_trigger
       [\<lparr>fse_Name = ''README.md''\<rparr>, \<lparr>fse_Name = ''main.go''\<rparr>, \<lparr>fse_Name = ''README.md''\<rparr>]) =
     [Started 0 ''make'' [], Terminated 0 (Some SIGTERM), Slept 100000000,
      Started 1 ''make'' [], Terminated 1 (Some SIGTERM), Done]"
  using restart_sequence [of sample_lib env0 fixed_trigger
       "[\<lparr>fse_Name = ''README.md''\<rparr>, \<lparr>fse_Name = ''main.go''\<rparr>, \<lparr>fse_Name = ''README.md''\<rparr>]"]
  by (simp add: sample_lib_def env0_def fixed_trigger_def trigger_of_def stop_of_def Start_env_def)

subsection \<open>The pattern test at run time\<close>

lemma Start_set_matchPattens:
  "Start env (set_matchPattens mp s) = (fst (Start env s), set_matchPattens mp (snd (Start env s)))"
  by (simp add: Start_def set_matchPattens_def Let_def)

lemma Stop_set_matchPattens:
  "Stop env (set_matchPattens mp s) = set_matchPattens mp (Stop env s)"
  by (simp add: Stop_def set_matchPattens_def split: option.splits)

lemma step_set_matchPattens:
  "WatchEvent_step L env evt (set_matchPattens mp s) =
     (fst (WatchEvent_step L env evt s), set_matchPattens mp (snd (WatchEvent_step L env evt s)))"
proof -
  have t: "\<And>u d. (set_matchPattens mp u)\<lparr>trace := trace (set_matchPattens mp u) @ [d]\<rparr> =
      set_matchPattens mp (u\<lparr>trace := trace u @ [d]\<rparr>)"
    by (simp add: set_matchPattens_def)
  have p: "\<And>u. Pattens (tg (set_matchPattens mp u)) = Pattens (tg u)"
      "\<And>u. delayDuration (tg (set_matchPattens mp u)) = delayDuration (tg u)"
    by (simp_all add: set_matchPattens_def)
  show ?thesis
    by (cases "Matches L (fse_Name evt) (Pattens (tg s))")
       (simp_all add: WatchEvent_step_def Let_def p t Stop_set_matchPattens Start_set_matchPattens)
qed

lemma loop_set_matchPattens:
  "WatchEvent_loop L env events (set_matchPattens mp s) =
     (fst (WatchEvent_loop L env events s), set_matchPattens mp (snd (WatchEvent_loop L env events s)))"
proof (induction events arbitrary: s)
  case Nil
  then show ?case by simp
next
  case (Cons evt rest)
  show ?case
    by (cases "WatchEvent_step L env evt s")
       (auto simp: step_set_matchPattens Cons.IH split: option.splits)
qed

lemma WatchEvent_set_matchPattens:
  "WatchEvent L env (this\<lparr>matchPattens := mp\<rparr>) events =
     set_matchPattens mp (WatchEvent L env this events)"
proof -
  let ?i = "\<lparr>tg = this, spawned = 0, trace = []\<rparr>"
  have i: "\<lparr>tg = this\<lparr>matchPattens := mp\<rparr>, spawned = 0, trace = []\<rparr> = set_matchPattens mp ?i"
    by (simp add: set_matchPattens_def)
  have t: "\<And>u d. (set_matchPattens mp u)\<lparr>trace := trace (set_matchPattens mp u) @ [d]\<rparr> =
      set_matchPattens mp (u\<lparr>trace := trace u @ [d]\<rparr>)"
    by (simp add: set_matchPattens_def)
  show ?thesis
    unfolding WatchEvent_def i
    by (cases "WatchEvent_loop L env events (snd (Start env ?i))")
       (auto simp: Start_set_matchPattens loop_set_matchPattens Stop_set_matchPattens t Let_def
          split: option.splits)
qed

lemma restart_tg: "tg (restart env s) = (tg s)\<lparr>kcmd := Some (spawned s)\<rparr>"
  by (simp add: restart_def Let_def Start_effect Stop_effect)

lemma loop_react:
  "WatchEvent_loop L env events s = react env (raw_tests L (tg s) events) s"
proof (induction events arbitrary: s)
  case Nil
  then show ?case by (simp add: raw_tests_def)
next
  case (Cons evt rest)
  have r: "Pattens (tg (restart env s)) = Pattens (tg s)"
    by (simp add: restart_tg)
  show ?case
  proof (cases "Matches L (fse_Name evt) (Pattens (tg s))")
    case (Inl err)
    then show ?thesis by (simp add: raw_tests_def WatchEvent_step_def)
  next
    case (Inr isMatch)
    show ?thesis
    proof (cases isMatch)
      case True
      with Inr have "WatchEvent_step L env evt s = (None, restart env s)"
        by (simp add: WatchEvent_step_def restart_def Let_def)
      with Inr True Cons.IH [of "restart env s"] r show ?thesis
        by (simp add: raw_tests_def)
    next
      case False
      with Inr have "WatchEvent_step L env evt s = (None, s)"
        by (simp add: WatchEvent_step_def)
      with Inr False Cons.IH [of s] show ?thesis
        by (simp add: raw_tests_def)
    qed
  qed
qed

text \<open>
  Claim C2, as the code has it. The loop of \<^verbatim>\<open>WatchEvent\<close> is the engine's reaction to
  the results of \<^verbatim>\<open>ignore.Matches\<close> on the path of each event and the raw list
  \<^verbatim>\<open>Pattens\<close>, one call for each event. The run is the same whatever list
  \<^verbatim>\<open>matchPattens\<close> holds. \<^verbatim>\<open>fixFWConfig\<close> leaves \<^verbatim>\<open>Pattens\<close> as it was and stores in
  \<^verbatim>\<open>matchPattens\<close> what \<^verbatim>\<open>ignore.ReadIgnore\<close> returns for the patterns joined by
  newlines.
\<close>

theorem runtime_match_raw:
  "WatchEvent_loop L env events s =
     react env (map (\<lambda>evt. Matches L (fse_Name evt) (Pattens (tg s))) events) s \<and>
   trace (WatchEvent L env (this\<lparr>matchPattens := mp\<rparr>) events) = trace (WatchEvent L env this events) \<and>
   (fixFWConfig L sm inp = (out, None) \<and> i < length (Triggers inp) \<longrightarrow>
      Pattens (Triggers out ! i) = Pattens (Triggers inp ! i) \<and>
      ReadIgnore L (strings_Join (Pattens (Triggers inp ! i)) newline)
        = Inr (matchPattens (Triggers out ! i)))"
proof (intro conjI impI)
  show "WatchEvent_loop L env events s =
     react env (map (\<lambda>evt. Matches L (fse_Name evt) (Pattens (tg s))) events) s"
    using loop_react [of L env events s] by (simp add: raw_tests_def)
next
  show "trace (WatchEvent L env (this\<lparr>matchPattens := mp\<rparr>) events) = trace (WatchEvent L env this events)"
    by (simp add: WatchEvent_set_matchPattens set_matchPattens_def)
next
  assume a: "fixFWConfig L sm inp = (out, None) \<and> i < length (Triggers inp)"
  then obtain ts where ts: "fixTriggers L sm (Triggers inp) = (ts, None)"
    and out: "Triggers out = ts"
    by (auto simp: fixFWConfig_def Let_def split: prod.splits option.splits if_splits)
  from fixTriggers_ok [OF ts] a have fx: "fixTrigger L sm (Triggers inp ! i) = (ts ! i, None)"
    by simp
  from fixTrigger_ok [OF fx] out
  show "Pattens (Triggers out ! i) = Pattens (Triggers inp ! i)"
    "ReadIgnore L (strings_Join (Pattens (Triggers inp ! i)) newline)
        = Inr (matchPattens (Triggers out ! i))"
    by simp_all
qed

text \<open>
  The trigger on \<open>main.go\<close>: the raw list is kept and the list read from it is stored;
  a change of \<open>README.md\<close> and then of \<open>main.go\<close> is one false and one true result, and
  the loop restarts once.
\<close>

theorem runtime_match_raw_witness:
  "Pattens fixed_trigger = [''main.go''] \<and>
   ReadIgnore sample_lib (strings_Join [''main.go''] newline) = Inr (matchPattens fixed_trigger) \<and>
   WatchEvent_loop sample_lib env0 [\<lparr>fse_Name = ''README.md''\<rparr>, \<lparr>fse_Name = ''main.go''\<rparr>] started0 =
     react env0 [Inr False, Inr True] started0 \<and>
   trace (snd (react env0 [Inr False, Inr True] started0)) =
     [Started 0 ''make'' [], Terminated 0 (Some SIGTERM), Slept 100000000, Started 1 ''make'' []]"
proof -
  have h: "fixFWConfig sample_lib signalMaps (cfg_of [trigger_of [''main.go''] [] ''TERM'']) =
       (\<lparr>Description = [], Triggers = [fixed_trigger], WatchPaths = [''.''], WatchDepth = 5\<rparr>, None)
     \<and> 0 < length (Triggers (cfg_of [trigger_of [''main.go''] [] ''TERM'']))"
    by (simp add: fix_sample fixed_trigger_def) (simp add: cfg_of_def)
  note T = runtime_match_raw [where L = sample_lib and sm = signalMaps and env = env0
        and events = "[\<lparr>fse_Name = ''README.md''\<rparr>, \<lparr>fse_Name = ''main.go''\<rparr>]" and s = started0
        and inp = "cfg_of [trigger_of [''main.go''] [] ''TERM'']"
        and out = "\<lparr>Description = [], Triggers = [fixed_trigger], WatchPaths = [''.''], WatchDepth = 5\<rparr>"
        and i = 0]
  have 1: "Pattens fixed_trigger = [''main.go''] \<and>
     ReadIgnore sample_lib (strings_Join [''main.go''] newline) = Inr (matchPattens fixed_trigger)"
    using T [THEN conjunct2, THEN conjunct2, THEN mp, OF h]
    by (simp add: cfg_of_def trigger_of_def)
  have 2: "WatchEvent_loop sample_lib env0 [\<lparr>fse_Name = ''README.md''\<rparr>, \<lparr>fse_Name = ''main.go''\<rparr>] started0 =
     react env0 [Inr False, Inr True] started0"
    using T [THEN conjunct1]
    by (simp add: sample_lib_def started0_def fixed_trigger_def trigger_of_def)
  have 3: "trace (snd (react env0 [Inr False, Inr True] started0)) =
     [Started 0 ''make'' [], Terminated 0 (Some SIGTERM), Slept 100000000, Started 1 ''make'' []]"
    by (simp add: restart_def started0_def fixed_trigger_def trigger_of_def Stop_def Start_def
        env0_def Start_env_def Let_def)
  from 1 2 3 show ?thesis by simp
qed

text \<open>
  Claim C2 as stated fails: a trigger whose one pattern string has the two lines \<open>a\<close> and
  \<open>b\<close> is fixed without error and gets the list \<open>a\<close>, \<open>b\<close> in \<^verbatim>\<open>matchPattens\<close>, which
  matches the path \<open>b\<close>; at run time the event for \<open>b\<close> is tested against the raw string
  and starts nothing.
\<close>

theorem compiled_matcher_unused_counterexample:
  "fixFWConfig sample_lib signalMaps (cfg_of [trigger_of [two_lines] [] []]) =
     (\<lparr>Description = [], Triggers = [(trigger_of [two_lines] ''100ms'' ''HUP'')
         \<lparr>matchPattens := [''a'', ''b''], delayDuration := 100000000, killSignal := Some SIGHUP\<rparr>],
       WatchPaths = [''.''], WatchDepth = 5\<rparr>, None) \<and>
   Matches sample_lib ''b'' [''a'', ''b''] = Inr True \<and>
   trace (WatchEvent sample_lib env0
       ((trigger_of [two_lines] ''100ms'' ''HUP'')
         \<lparr>matchPattens := [''a'', ''b''], delayDuration := 100000000, killSignal := Some SIGHUP\<rparr>)
       [\<lparr>fse_Name = ''b''\<rparr>])
     = [Started 0 ''make'' [], Terminated 0 (Some SIGHUP), Done]"
  by (simp add: fixFWConfig_def fixTrigger_def sample_lib_def cfg_of_def trigger_of_def two_lines_def
      newline_def signalMaps_HUP Let_def WatchEvent_def WatchEvent_step_def Start_def Stop_def
      env0_def Start_env_def)

subsection \<open>The environment of a started command\<close>

lemma env_key_entry: "CHR ''='' \<notin> set k \<Longrightarrow> env_key (k @ CHR ''='' # v) = Some k"
  by (induction k) (auto simp: env_key_def)

lemma env_value_entry: "CHR ''='' \<notin> set k \<Longrightarrow> env_value (k @ CHR ''='' # v) = v"
  by (induction k) (auto simp: env_value_def)

lemma filter_overrides:
  "distinct (map fst environ) \<Longrightarrow> \<forall>kv \<in> set environ. CHR ''='' \<notin> set (fst kv) \<Longrightarrow>
   filter (\<lambda>kv. env_key kv = Some key) (map (\<lambda>(k, v). k @ CHR ''='' # v) environ) =
     (case map_of environ key of None \<Rightarrow> [] | Some v \<Rightarrow> [key @ CHR ''='' # v])"
proof (induction environ)
  case Nil
  then show ?case by simp
next
  case (Cons kv environ)
  obtain k v where kv: "kv = (k, v)" by (cases kv)
  from Cons.prems kv have k: "CHR ''='' \<notin> set k" and nk: "k \<notin> fst ` set environ" by auto
  from Cons have ih: "filter (\<lambda>kv. env_key kv = Some key) (map (\<lambda>(k, v). k @ CHR ''='' # v) environ) =
     (case map_of environ key of None \<Rightarrow> [] | Some v \<Rightarrow> [key @ CHR ''='' # v])" by simp
  show ?case
  proof (cases "k = key")
    case True
    with nk have "map_of environ key = None" by (simp add: map_of_eq_None_iff)
    with True k ih kv show ?thesis by (simp add: env_key_entry)
  next
    case False
    with k ih kv show ?thesis by (simp add: env_key_entry)
  qed
qed

text \<open>
  Claim C9. \<^verbatim>\<open>Start\<close> starts the command with the inherited environment followed by one
  \<open>key=value\<close> entry for each entry of the trigger's \<^verbatim>\<open>Environ\<close>. For a trigger whose
  keys are environment variable names (none contains \<open>=\<close>), the value the command sees
  for a key is the trigger's value when the trigger has the key, and the inherited one
  otherwise.
\<close>

theorem Start_environment:
  assumes "distinct (map fst (Environ (tg s)))"
    and "\<forall>kv \<in> set (Environ (tg s)). CHR ''='' \<notin> set (fst kv)"
  shows "trace (snd (Start env s)) =
           trace s @ [Started (spawned s) (Command (tg s))
                        (os_Environ env @ map (\<lambda>(k, v). k @ ''='' @ v) (Environ (tg s)))] \<and>
         env_lookup (os_Environ env @ map (\<lambda>(k, v). k @ ''='' @ v) (Environ (tg s))) key =
           (case map_of (Environ (tg s)) key of
              Some v \<Rightarrow> Some v
            | None \<Rightarrow> env_lookup (os_Environ env) key)"
proof -
  let ?inh = "filter (\<lambda>kv. env_key kv = Some key) (os_Environ env)"
  have f: "filter (\<lambda>kv. env_key kv = Some key) (Start_env (os_Environ env) (Environ (tg s))) =
      ?inh @ (case map_of (Environ (tg s)) key of None \<Rightarrow> [] | Some v \<Rightarrow> [key @ CHR ''='' # v])"
    using assms by (simp add: Start_env_def filter_overrides)
  have "env_lookup (Start_env (os_Environ env) (Environ (tg s))) key =
             (case map_of (Environ (tg s)) key of
                Some v \<Rightarrow> Some v
              | None \<Rightarrow> env_lookup (os_Environ env) key)"
  proof (cases "map_of (Environ (tg s)) key")
    case None
    with f show ?thesis by (simp add: env_lookup_def)
  next
    case (Some v)
    then have "(key, v) \<in> set (Environ (tg s))" by (rule map_of_SomeD)
    with assms(2) have "CHR ''='' \<notin> set key" by force
    with f Some show ?thesis
      by (cases ?inh) (simp_all add: env_lookup_def env_value_entry)
  qed
  then show ?thesis
    by (simp add: Start_effect Start_env_def)
qed

text \<open>
  With \<open>PATH\<close> and \<open>HOME\<close> inherited and \<open>DEBUG\<close> and \<open>PATH\<close> set by the trigger, the
  command sees the trigger's \<open>PATH\<close>.
\<close>

theorem Start_environment_witness:
  "trace (snd (Start env1 env_engine)) =
     [Started 0 ''make'' [''PATH=/bin'', ''HOME=/root'', ''DEBUG=1'', ''PATH=/opt/bin'']] \<and>
   env_lookup [''PATH=/bin'', ''HOME=/root'', ''DEBUG=1'', ''PATH=/opt/bin''] ''PATH''
     = Some ''/opt/bin''"
proof -
  have d: "distinct (map fst (Environ (tg env_engine)))"
    by (simp add: env_engine_def)
  have k: "\<forall>kv \<in> set (Environ (tg env_engine)). CHR ''='' \<notin> set (fst kv)"
    by (simp add: env_engine_def)
  show ?thesis
    using Start_environment [OF d k, of env1 "''PATH''"]
    by (simp add: env_engine_def env1_def fixed_trigger_def trigger_of_def)
qed

subsection \<open>The directory enumeration\<close>
















text \<open>
  Two roots the theorem does not cover. For the parent directory as root, whose base
  name is \<open>..\<close>, the callback's test of the name leaves out everything. For the root \<open>.\<close>
  the walk names the directories by cleaned paths, \<open>sub\<close> and not \<open>./sub\<close>, so the count of
  separators is one less than the depth, and with the maximum depth 1 the directory
  \<open>sub/sub2\<close> at depth 2 is listed, where for the root \<open>src\<close> it is left out.
\<close>

lemma ListAllDir_parent_root: "ListAllDir (Some sample_tree) ''..'' 5 = Inr []"
  by (simp add: ListAllDir_def listDir_def sample_tree_def HasPrefix_def Count_def
      PathSeparator_def basename_def)

lemma ListAllDir_dot_root:
  "ListAllDir (Some sample_tree) ''.'' 1 = Inr [''.'', ''sub'', ''sub/sub2'']"
  by (simp add: ListAllDir_def listDir_def sample_tree_def HasPrefix_def Count_def
      PathSeparator_def Join_def Clean_def basename_def)

end
